theory Spec2Isabelle
  imports Complex_Main "HOL-Library.Sublist" "HOL-Library.Log_Nat"
begin

section \<open>The 0.8 importer (importer/v8/importer.go)\<close>

text \<open>
  A shallow embedding of \<^verbatim>\<open>importer.go\<close>. Go strings are byte strings, modelled as
  \<^typ>\<open>string\<close>. The counters of the importer are Go \<^verbatim>\<open>int\<close>s (64 bit); they count
  lines of one input file, stay far below \<open>2^63\<close>, and are modelled as \<^typ>\<open>int\<close>.
  Instants and durations are integers counting nanoseconds.
  Output through \<^verbatim>\<open>log.Printf\<close> is write-only and is left out; every other effect
  (transport calls, standard output, clock readings, timer ticks) is a field of the
  record \<open>world\<close>.
\<close>

subsection \<open>Library functions the importer calls\<close>

text \<open>\<^verbatim>\<open>strings.HasPrefix(s, prefix)\<close>:
  \<^verbatim>\<open>len(s) >= len(prefix) && s[:len(prefix)] == prefix\<close>.\<close>

definition HasPrefix :: "string \<Rightarrow> string \<Rightarrow> bool" where
  "HasPrefix s pre \<longleftrightarrow> length pre \<le> length s \<and> take (length pre) s = pre"

text \<open>
  \<^verbatim>\<open>strings.TrimSpace(s)\<close> is \<^verbatim>\<open>TrimFunc(s, unicode.IsSpace)\<close>: it removes the leading
  and then the trailing runes that are white space. On the bytes of the string, a
  leading (trailing) rune is white space exactly when the string starts (ends) with the
  UTF-8 encoding of one of the runes of \<^verbatim>\<open>unicode.IsSpace\<close>: tab, line feed, vertical
  tab, form feed, carriage return, space, U+0085, U+00A0, U+1680, U+2000 to U+200A,
  U+2028, U+2029, U+202F, U+205F and U+3000. An invalid byte decodes to U+FFFD, which is
  not white space.
\<close>

definition spaceRunes :: "string list" where
  "spaceRunes =
    [[CHR 0x09], [CHR 0x0A], [CHR 0x0B], [CHR 0x0C], [CHR 0x0D], [CHR 0x20],
     [CHR 0xC2, CHR 0x85], [CHR 0xC2, CHR 0xA0],
     [CHR 0xE1, CHR 0x9A, CHR 0x80],
     [CHR 0xE2, CHR 0x80, CHR 0x80], [CHR 0xE2, CHR 0x80, CHR 0x81],
     [CHR 0xE2, CHR 0x80, CHR 0x82], [CHR 0xE2, CHR 0x80, CHR 0x83],
     [CHR 0xE2, CHR 0x80, CHR 0x84], [CHR 0xE2, CHR 0x80, CHR 0x85],
     [CHR 0xE2, CHR 0x80, CHR 0x86], [CHR 0xE2, CHR 0x80, CHR 0x87],
     [CHR 0xE2, CHR 0x80, CHR 0x88], [CHR 0xE2, CHR 0x80, CHR 0x89],
     [CHR 0xE2, CHR 0x80, CHR 0x8A],
     [CHR 0xE2, CHR 0x80, CHR 0xA8], [CHR 0xE2, CHR 0x80, CHR 0xA9],
     [CHR 0xE2, CHR 0x80, CHR 0xAF],
     [CHR 0xE2, CHR 0x81, CHR 0x9F],
     [CHR 0xE3, CHR 0x80, CHR 0x80]]"

text \<open>The width in bytes of the rune of \<open>rs\<close> that \<open>s\<close> starts with, 0 when there is none.\<close>

definition spaceWidth :: "string list \<Rightarrow> string \<Rightarrow> nat" where
  "spaceWidth rs s =
     (case find (\<lambda>r. r \<noteq> [] \<and> prefix r s) rs of None \<Rightarrow> 0 | Some r \<Rightarrow> length r)"

function TrimLeft :: "string list \<Rightarrow> string \<Rightarrow> string" where
  "TrimLeft rs s =
     (if spaceWidth rs s = 0 then s else TrimLeft rs (drop (spaceWidth rs s) s))"
  by pat_completeness auto
termination
  by (relation "measure (\<lambda>(rs, s). length s)")
    (auto simp: spaceWidth_def find_Some_iff prefix_def split: option.splits)

declare TrimLeft.simps [simp del]

definition TrimRight :: "string list \<Rightarrow> string \<Rightarrow> string" where
  "TrimRight rs s = rev (TrimLeft (map rev rs) (rev s))"

definition TrimSpace :: "string \<Rightarrow> string" where
  "TrimSpace s = TrimRight spaceRunes (TrimLeft spaceRunes s)"

text \<open>
  \<^verbatim>\<open>strings.Split(s, sep)\<close> for a separator of one byte, which is how the importer
  calls it (\<^verbatim>\<open>":"\<close>): the fields between the separators, in order; a string with \<open>n\<close>
  separators has \<open>n + 1\<close> fields. The last case of the inner \<open>case\<close> is never reached.
\<close>

fun Split :: "string \<Rightarrow> char \<Rightarrow> string list" where
  "Split [] sep = [[]]"
| "Split (c # cs) sep =
     (if c = sep then [] # Split cs sep
      else (case Split cs sep of f # fs \<Rightarrow> (c # f) # fs | [] \<Rightarrow> [[c]]))"

text \<open>\<^verbatim>\<open>strings.Join(elems, sep)\<close>.\<close>

fun Join :: "string list \<Rightarrow> string \<Rightarrow> string" where
  "Join [] sep = []"
| "Join [x] sep = x"
| "Join (x # y # ys) sep = x @ sep @ Join (y # ys) sep"

text \<open>A slice read \<^verbatim>\<open>a[i]\<close> panics when \<open>i\<close> is out of range.\<close>

datatype error = IndexOutOfRange

definition index :: "'a list \<Rightarrow> nat \<Rightarrow> error + 'a" where
  "index a i = (if i < length a then Inr (a ! i) else Inl IndexOutOfRange)"

text \<open>The verb \<^verbatim>\<open>%d\<close> of \<^verbatim>\<open>fmt\<close>: the decimal digits, after a minus sign when negative.\<close>

fun digits :: "nat \<Rightarrow> string" where
  "digits n =
     (if n < 10 then [''0123456789'' ! n]
      else digits (n div 10) @ [''0123456789'' ! (n mod 10)])"

declare digits.simps [simp del]

definition itoa :: "int \<Rightarrow> string" where
  "itoa n = (if n < 0 then CHR ''-'' # digits (nat (- n)) else digits (nat n))"

text \<open>
  Integer division and remainder of Go truncate toward zero (\<^verbatim>\<open>/\<close> and \<^verbatim>\<open>%\<close>).
\<close>

definition truncDiv :: "int \<Rightarrow> int \<Rightarrow> int" where
  "truncDiv a b = sgn a * sgn b * (\<bar>a\<bar> div \<bar>b\<bar>)"

definition truncMod :: "int \<Rightarrow> int \<Rightarrow> int" where
  "truncMod a b = a - b * truncDiv a b"

text \<open>
  Arithmetic in \<^verbatim>\<open>float64\<close>. A \<^verbatim>\<open>float64\<close> is the real number it stands for; a conversion
  or an operation returns the exact result rounded to the nearest number with a
  significand of 53 bits, ties going to the even significand (\<open>f64\<close>). The exponent is
  not bounded here: the model has no overflow and no subnormal numbers, which the counts
  and durations of the importer, 64-bit integers, never reach.

  \<open>ilog2 x\<close> is the exponent of a positive \<open>x\<close>: \<open>2^(ilog2 x) \<le> x < 2^(ilog2 x + 1)\<close>.
\<close>

definition ilog2 :: "real \<Rightarrow> int" where
  "ilog2 x =
     (let k = (if 1 \<le> x then bitlen \<lfloor>x\<rfloor> - 1 else - bitlen \<lfloor>1 / x\<rfloor>)
      in if 2 powi (k + 1) \<le> x then k + 1 else k)"

definition roundHalfEven :: "real \<Rightarrow> int" where
  "roundHalfEven s =
     (let f = \<lfloor>s\<rfloor>; r = s - of_int f
      in if r < 1 / 2 then f else if 1 / 2 < r then f + 1 else if even f then f else f + 1)"

definition f64 :: "real \<Rightarrow> real" where
  "f64 x =
     (if x = 0 then 0
      else let e = ilog2 \<bar>x\<bar> - 52
           in sgn x * of_int (roundHalfEven (\<bar>x\<bar> / 2 powi e)) * 2 powi e)"

text \<open>The conversion \<^verbatim>\<open>int(x)\<close> of a \<^verbatim>\<open>float64\<close> truncates toward zero.\<close>

definition toInt :: "real \<Rightarrow> int" where
  "toInt x = (if 0 \<le> x then \<lfloor>x\<rfloor> else \<lceil>x\<rceil>)"

text \<open>
  \<^verbatim>\<open>time.Duration.Seconds\<close>, for a duration \<open>d\<close> in nanoseconds:
  \<^verbatim>\<open>sec := d / Second; nsec := d % Second; return float64(sec) + float64(nsec)/1e9\<close>.
\<close>

definition Seconds :: "int \<Rightarrow> real" where
  "Seconds d =
     (let sec = truncDiv d 1000000000; nsec = truncMod d 1000000000
      in f64 (f64 (of_int sec) + f64 (f64 (of_int nsec) / 1000000000)))"

subsection \<open>The importer and its surroundings\<close>

definition batchSize :: nat where
  "batchSize = 5000"

text \<open>Of the embedded \<^verbatim>\<open>client.Config\<close>, the fields the importer reads or writes.\<close>

record Config =
  Path :: string
  Version :: string
  Compressed :: bool
  PPS :: int
  DestinationDatabase :: string
  RetentionPolicy :: string
  UserAgent :: string
  Precision :: string
  WriteConsistency :: string

text \<open>The fields \<^verbatim>\<open>client\<close> and \<^verbatim>\<open>throttle\<close> are handles into the world below.\<close>

record Importer =
  database :: string
  retentionPolicy :: string
  config :: Config
  batch :: "string list"
  totalInserts :: int
  failedInserts :: int
  totalCommands :: int
  throttlePointsWritten :: int
  lastWrite :: int
  createDatabaseQuery :: string

text \<open>
  One call of \<^verbatim>\<open>client.WriteLineProtocol\<close>: the body, the database, the retention
  policy, the precision and the write consistency.
\<close>

type_synonym writeCall = "string \<times> string \<times> string \<times> string \<times> string"

text \<open>
  The world the importer runs in. \<open>clock w n\<close> is what the \<open>n\<close>-th reading of the wall
  clock returns and \<open>reads\<close> counts the readings made; \<open>writeFails w n\<close> tells whether
  the \<open>n\<close>-th call of \<^verbatim>\<open>WriteLineProtocol\<close> returns an error, and \<open>writes\<close> lists the
  calls made, in order; \<open>queries\<close> lists the calls of \<^verbatim>\<open>client.Query\<close> (command and
  database); \<open>stdout\<close> is the bytes printed to standard output; \<open>ticks\<close> counts the
  ticks received from the throttle's channel.
\<close>

record world =
  clock :: "nat \<Rightarrow> int"
  reads :: nat
  writeFails :: "nat \<Rightarrow> bool"
  writes :: "writeCall list"
  queries :: "(string \<times> string) list"
  stdout :: string
  ticks :: nat

text \<open>\<^verbatim>\<open>time.Now()\<close>: one reading of the clock.\<close>

definition Now :: "world \<Rightarrow> int \<times> world" where
  "Now w = (clock w (reads w), w\<lparr>reads := Suc (reads w)\<rparr>)"

text \<open>\<^verbatim>\<open>NewImporter\<close>. The zero \<^verbatim>\<open>time.Time\<close> of \<open>lastWrite\<close> is instant 0.\<close>

definition NewImporter :: "Config \<Rightarrow> Importer" where
  "NewImporter cfg =
     \<lparr>database = [], retentionPolicy = [],
      config = cfg\<lparr>UserAgent := ''influxDB importer/'' @ Version cfg\<rparr>,
      batch = [], totalInserts = 0, failedInserts = 0, totalCommands = 0,
      throttlePointsWritten = 0, lastWrite = 0, createDatabaseQuery = []\<rparr>"

subsection \<open>Phase 1: processDDL\<close>

text \<open>
  The scanner is the list of the lines it has yet to return. \<open>processDDL\<close> returns the
  lines it leaves to phase 2 and the importer.
\<close>

fun processDDL :: "string list \<Rightarrow> Importer \<Rightarrow> string list \<times> Importer" where
  "processDDL [] i = ([], i)"
| "processDDL (line # rest) i =
     (if HasPrefix line ''# DML'' then (rest, i)
      else if HasPrefix line ''#'' then processDDL rest i
      else if TrimSpace line = [] then processDDL rest i
      else processDDL rest (i\<lparr>createDatabaseQuery := line\<rparr>))"

subsection \<open>The batch writer: batchWrite\<close>

text \<open>
  Lines 246 to 251: the rate, from the points accumulated and the time elapsed:
  \<^verbatim>\<open>int(float64(i.throttlePointsWritten) / since.Seconds())\<close> when
  \<^verbatim>\<open>since.Seconds() > 0\<close>, the points accumulated otherwise.
\<close>

definition currentPPS :: "int \<Rightarrow> int \<Rightarrow> int" where
  "currentPPS points since =
     (if Seconds since > 0 then toInt (f64 (f64 (of_int points) / Seconds since)) else points)"

text \<open>
  Lines 264 to 275: the transport write, the bookkeeping of its result, and the reset of
  the rate window with a new reading of the clock.
\<close>

definition transportWrite :: "Importer \<Rightarrow> world \<Rightarrow> Importer \<times> world" where
  "transportWrite i w =
     (let body = Join (batch i) [CHR 0x0A];
          e = writeFails w (length (writes w));
          w1 = w\<lparr>writes := writes w @
                 [(body, database i, retentionPolicy i,
                   Precision (config i), WriteConsistency (config i))]\<rparr>;
          (i2, w2) =
            (if e
             then (i\<lparr>failedInserts := failedInserts i + int (length (batch i))\<rparr>,
                   w1\<lparr>stdout := stdout w1 @ body @ [CHR 0x0A]\<rparr>)
             else (i\<lparr>totalInserts := totalInserts i + int (length (batch i))\<rparr>, w1));
          (now, w3) = Now w2
      in (i2\<lparr>throttlePointsWritten := 0, lastWrite := now\<rparr>, w3))"

text \<open>
  \<open>batchWrite\<close> calls itself for as long as the rate is over the limit, so it may never
  return: \<open>None\<close> is the run that waits forever.
\<close>

partial_function (option) batchWrite :: "Importer \<Rightarrow> world \<Rightarrow> (Importer \<times> world) option" where
  "batchWrite i w =
     (let i1 = i\<lparr>throttlePointsWritten := throttlePointsWritten i + int (length (batch i))\<rparr>;
          since = fst (Now w) - lastWrite i1;
          w1 = snd (Now w)
      in if currentPPS (throttlePointsWritten i1) since > PPS (config i1) \<and> PPS (config i1) \<noteq> 0
         then batchWrite
                (i1\<lparr>throttlePointsWritten := throttlePointsWritten i1 - int (length (batch i1))\<rparr>)
                (w1\<lparr>ticks := Suc (ticks w1)\<rparr>)
         else Some (transportWrite i1 w1))"

subsection \<open>The batch accumulator: batchAccumulator\<close>

text \<open>
  The status line every 100000 lines reads the clock (\<^verbatim>\<open>time.Since(start)\<close>) and writes
  to the log only.
\<close>

definition batchAccumulator ::
  "string \<Rightarrow> int \<Rightarrow> Importer \<Rightarrow> world \<Rightarrow> (Importer \<times> world) option" where
  "batchAccumulator line start i w =
     (let i1 = i\<lparr>batch := batch i @ [line]\<rparr>
      in if length (batch i1) = batchSize
         then (case batchWrite i1 w of
                 None \<Rightarrow> None
               | Some (i2, w2) \<Rightarrow>
                   (let i3 = i2\<lparr>batch := []\<rparr>;
                        processed = totalInserts i3 + failedInserts i3
                    in if processed mod 100000 = 0 then Some (i3, snd (Now w2))
                       else Some (i3, w2)))
         else Some (i1, w))"

subsection \<open>Phase 2: processDML\<close>

definition execute :: "string \<Rightarrow> Importer \<Rightarrow> world \<Rightarrow> world" where
  "execute command i w = w\<lparr>queries := queries w @ [(command, database i)]\<rparr>"

definition queryExecutor :: "string \<Rightarrow> Importer \<Rightarrow> world \<Rightarrow> Importer \<times> world" where
  "queryExecutor command i w =
     (let i1 = i\<lparr>totalCommands := totalCommands i + 1\<rparr> in (i1, execute command i1 w))"

text \<open>Lines 185 to 187 and 189 to 191: the two context directives.\<close>

definition contextDatabase :: "string \<Rightarrow> string \<Rightarrow> Importer \<Rightarrow> error + Importer" where
  "contextDatabase dboverride line i =
     (if dboverride = [] \<and> HasPrefix line ''# CONTEXT-DATABASE:''
      then (case index (Split line CHR '':'') 1 of
              Inl e \<Rightarrow> Inl e
            | Inr v \<Rightarrow> Inr (i\<lparr>database := TrimSpace v\<rparr>))
      else Inr i)"

definition contextRetentionPolicy :: "string \<Rightarrow> string \<Rightarrow> Importer \<Rightarrow> error + Importer" where
  "contextRetentionPolicy rpoverride line i =
     (if rpoverride = [] \<and> HasPrefix line ''# CONTEXT-RETENTION-POLICY:''
      then (case index (Split line CHR '':'') 1 of
              Inl e \<Rightarrow> Inl e
            | Inr v \<Rightarrow> Inr (i\<lparr>retentionPolicy := TrimSpace v\<rparr>))
      else Inr i)"

text \<open>
  The loop of lines 182 to 201. Its result is \<open>None\<close> when a flush never returns,
  \<open>Some (Inl e)\<close> when a line makes it panic, \<open>Some (Inr (i, w))\<close> when the scanner is
  exhausted.
\<close>

fun scanDML ::
  "string \<Rightarrow> string \<Rightarrow> int \<Rightarrow> string list \<Rightarrow> Importer \<Rightarrow> world
     \<Rightarrow> (error + Importer \<times> world) option" where
  "scanDML dboverride rpoverride start [] i w = Some (Inr (i, w))"
| "scanDML dboverride rpoverride start (line # rest) i w =
     (case contextDatabase dboverride line i of
        Inl e \<Rightarrow> Some (Inl e)
      | Inr i1 \<Rightarrow>
          (case contextRetentionPolicy rpoverride line i1 of
             Inl e \<Rightarrow> Some (Inl e)
           | Inr i2 \<Rightarrow>
               if HasPrefix line ''#'' then scanDML dboverride rpoverride start rest i2 w
               else if TrimSpace line = [] then scanDML dboverride rpoverride start rest i2 w
               else (case batchAccumulator line start i2 w of
                       None \<Rightarrow> None
                     | Some (i3, w3) \<Rightarrow> scanDML dboverride rpoverride start rest i3 w3)))"

definition processDML ::
  "string list \<Rightarrow> string \<Rightarrow> string \<Rightarrow> Importer \<Rightarrow> world
     \<Rightarrow> (error + Importer \<times> world) option" where
  "processDML lines dboverride rpoverride i w =
     (let i1 = (if dboverride \<noteq> []
                then i\<lparr>createDatabaseQuery := ''CREATE DATABASE '' @ dboverride,
                        database := dboverride\<rparr>
                else i);
          (i2, w2) = queryExecutor (createDatabaseQuery i1) i1 w;
          i3 = (if rpoverride \<noteq> [] then i2\<lparr>retentionPolicy := rpoverride\<rparr> else i2);
          (start, w3) = Now w2
      in case scanDML dboverride rpoverride start lines i3 w3 of
           None \<Rightarrow> None
         | Some (Inl e) \<Rightarrow> Some (Inl e)
         | Some (Inr (i4, w4)) \<Rightarrow> map_option Inr (batchWrite i4 w4))"

subsection \<open>The orchestrator: Import\<close>

text \<open>
  What \<open>Import\<close> finds outside the importer: the error of \<^verbatim>\<open>client.NewClient\<close>, if any;
  whether \<^verbatim>\<open>Ping\<close> fails; the address of the client; and, for a path, the error of
  \<^verbatim>\<open>os.Open\<close> or the file. A file is the error of \<^verbatim>\<open>gzip.NewReader\<close> on it, if any, the
  lines the scanner returns from it, and the error the scanner ends with, if any.
\<close>

record inputFile =
  gzipErr :: "string option"
  fileLines :: "string list"
  scanErr :: "string option"

record environment =
  newClientErr :: "string option"
  pingFails :: bool
  addr :: string
  openFile :: "string \<Rightarrow> string + inputFile"

text \<open>
  The result of \<open>Import\<close> is the error it returns (\<open>None\<close> is \<^verbatim>\<open>nil\<close>), the importer and
  the world. The deferred summary writes to the log only.
\<close>

definition notInserted :: "int \<Rightarrow> string" where
  "notInserted n =
     (let plural = (if n > 1 then ''s were'' else '' was'')
      in itoa n @ '' point'' @ plural @ '' not inserted'')"

definition Import ::
  "environment \<Rightarrow> Importer \<Rightarrow> world \<Rightarrow> (error + string option \<times> Importer \<times> world) option" where
  "Import env i w =
     (case newClientErr env of
        Some err \<Rightarrow> Some (Inr (Some (''could not create client '' @ err), i, w))
      | None \<Rightarrow>
        if pingFails env
        then Some (Inr (Some (''failed to connect to '' @ addr env @ [CHR 0x0A]), i, w))
        else if Path (config i) = []
        then Some (Inr (Some ''file argument required'', i, w))
        else (case openFile env (Path (config i)) of
                Inl err \<Rightarrow> Some (Inr (Some err, i, w))
              | Inr f \<Rightarrow>
                if Compressed (config i) \<and> gzipErr f \<noteq> None
                then Some (Inr (gzipErr f, i, w))
                else
                  (let (rest, i1) = processDDL (fileLines f) i;
                       (now, w1) = Now w;
                       i2 = i1\<lparr>lastWrite := now\<rparr>
                   in case processDML rest (DestinationDatabase (config i2))
                             (RetentionPolicy (config i2)) i2 w1 of
                        None \<Rightarrow> None
                      | Some (Inl e) \<Rightarrow> Some (Inl e)
                      | Some (Inr (i3, w3)) \<Rightarrow>
                          (case scanErr f of
                             Some err \<Rightarrow>
                               Some (Inr (Some (''reading standard input: '' @ err), i3, w3))
                           | None \<Rightarrow>
                               if failedInserts i3 > 0
                               then Some (Inr (Some (notInserted (failedInserts i3)), i3, w3))
                               else Some (Inr (None, i3, w3))))))"

subsection \<open>Notions used in the statements\<close>

text \<open>The lines of phase 1 that come before the first line starting with the marker.\<close>

definition beforeMarker :: "string list \<Rightarrow> string list" where
  "beforeMarker lines = takeWhile (\<lambda>l. \<not> HasPrefix l ''# DML'') lines"

text \<open>A line that is neither a comment nor blank: a statement in phase 1, a data line in phase 2.\<close>

definition isStatement :: "string \<Rightarrow> bool" where
  "isStatement l \<longleftrightarrow> \<not> HasPrefix l ''#'' \<and> TrimSpace l \<noteq> []"

text \<open>
  The rate check of \<open>batchWrite\<close> on importer \<open>i\<close> when the clock reads \<open>now\<close>: the rate is
  over a limit that is set.
\<close>

definition overLimit :: "Importer \<Rightarrow> int \<Rightarrow> bool" where
  "overLimit i now \<longleftrightarrow>
     currentPPS (throttlePointsWritten i + int (length (batch i))) (now - lastWrite i)
       > PPS (config i) \<and> PPS (config i) \<noteq> 0"

text \<open>The world after \<open>k\<close> failed rate checks: \<open>k\<close> readings of the clock and \<open>k\<close> ticks.\<close>

definition waited :: "world \<Rightarrow> nat \<Rightarrow> world" where
  "waited w k = w\<lparr>reads := reads w + k, ticks := ticks w + k\<rparr>"

text \<open>A flush whose rate check passes at once: one reading of the clock, then the write.\<close>

definition flushNow :: "Importer \<Rightarrow> world \<Rightarrow> Importer \<times> world" where
  "flushNow i w =
     transportWrite
       (i\<lparr>throttlePointsWritten := throttlePointsWritten i + int (length (batch i))\<rparr>)
       (w\<lparr>reads := Suc (reads w)\<rparr>)"

text \<open>The importer after the two context checks of one line of phase 2 (lines 185 to 191).\<close>

definition setContext :: "string \<Rightarrow> string \<Rightarrow> string \<Rightarrow> Importer \<Rightarrow> Importer" where
  "setContext dboverride rpoverride line i =
     (let i1 = (if dboverride = [] \<and> HasPrefix line ''# CONTEXT-DATABASE:''
                then i\<lparr>database := TrimSpace (Split line CHR '':'' ! 1)\<rparr> else i)
      in if rpoverride = [] \<and> HasPrefix line ''# CONTEXT-RETENTION-POLICY:''
         then i1\<lparr>retentionPolicy := TrimSpace (Split line CHR '':'' ! 1)\<rparr> else i1)"

text \<open>A clock that moves forward between any two readings.\<close>

definition clockAdvances :: "world \<Rightarrow> bool" where
  "clockAdvances w \<longleftrightarrow> (\<forall>n. clock w n < clock w (Suc n))"

text \<open>The importer and the world when the scan of phase 2 starts (lines 171 to 181):
  the overrides applied, the schema command sent, the start time read.\<close>

definition overrides :: "string \<Rightarrow> string \<Rightarrow> Importer \<Rightarrow> Importer" where
  "overrides dboverride rpoverride i =
     (let i1 = (if dboverride \<noteq> []
                then i\<lparr>createDatabaseQuery := ''CREATE DATABASE '' @ dboverride,
                        database := dboverride\<rparr>
                else i);
          i2 = i1\<lparr>totalCommands := totalCommands i1 + 1\<rparr>
      in if rpoverride \<noteq> [] then i2\<lparr>retentionPolicy := rpoverride\<rparr> else i2)"

definition started :: "string \<Rightarrow> Importer \<Rightarrow> world \<Rightarrow> world" where
  "started dboverride i w =
     w\<lparr>queries := queries w @
          [if dboverride \<noteq> [] then (''CREATE DATABASE '' @ dboverride, dboverride)
           else (createDatabaseQuery i, database i)],
       reads := Suc (reads w)\<rparr>"

text \<open>The rate that the check of \<open>batchWrite\<close> on importer \<open>i\<close> computes when the clock reads \<open>now\<close>.\<close>

definition rateAt :: "Importer \<Rightarrow> int \<Rightarrow> int" where
  "rateAt i now =
     currentPPS (throttlePointsWritten i + int (length (batch i))) (now - lastWrite i)"

subsection \<open>Example inputs\<close>

text \<open>A configuration with no limit and no override, a world whose clock advances one second
  per reading and whose transport never fails, and the dump of the specification's scenario.\<close>

definition exampleConfig :: Config where
  "exampleConfig =
     \<lparr>Path = ''dump.txt'', Version = ''1.8'', Compressed = False, PPS = 0,
      DestinationDatabase = [], RetentionPolicy = [], UserAgent = [],
      Precision = ''ns'', WriteConsistency = ''any''\<rparr>"

definition exampleWorld :: world where
  "exampleWorld =
     \<lparr>clock = (\<lambda>n. int n * 1000000000), reads = 0, writeFails = (\<lambda>n. False),
      writes = [], queries = [], stdout = [], ticks = 0\<rparr>"

definition exampleLines :: "string list" where
  "exampleLines =
     [''# DDL'', ''CREATE DATABASE foo'', ''# DML'', ''# CONTEXT-DATABASE: foo'', ''m,t=1 v=1 0'']"

text \<open>An importer limited to one point per second, holding a batch of two lines.\<close>

definition exampleImporter :: Importer where
  "exampleImporter =
     (NewImporter (exampleConfig\<lparr>PPS := 1\<rparr>))\<lparr>batch := [''m v=1'', ''m v=2'']\<rparr>"

text \<open>A world whose transport fails every write.\<close>

definition failingWorld :: world where
  "failingWorld = exampleWorld\<lparr>writeFails := (\<lambda>n. True)\<rparr>"

text \<open>Surroundings in which the client connects and two dumps can be opened.\<close>

definition exampleEnvironment :: environment where
  "exampleEnvironment =
     \<lparr>newClientErr = None, pingFails = False, addr = ''localhost:8086'',
      openFile = (\<lambda>p. if p = ''dump.txt''
                       then Inr \<lparr>gzipErr = None, fileLines = exampleLines, scanErr = None\<rparr>
                       else if p = ''points.txt''
                       then Inr \<lparr>gzipErr = None,
                                  fileLines = [''# DML'', ''a 1'', ''b 2'', ''c 3''],
                                  scanErr = None\<rparr>
                       else Inl ''open: no such file or directory'')\<rparr>"

section \<open>Properties\<close>

subsection \<open>Strings\<close>

lemmas trim_eval = TrimSpace_def TrimRight_def TrimLeft.simps spaceWidth_def spaceRunes_def

lemma HasPrefix_iff: "HasPrefix s pre \<longleftrightarrow> prefix pre s"
  by (auto simp: HasPrefix_def prefix_def) (metis append_take_drop_id)

lemma HasPrefix_Nil [simp]: "HasPrefix [] (c # cs) = False"
  by (simp add: HasPrefix_def)

lemma HasPrefix_Cons [simp]: "HasPrefix (x # xs) (c # cs) \<longleftrightarrow> x = c \<and> HasPrefix xs cs"
  by (auto simp: HasPrefix_def)

lemma HasPrefix_empty [simp]: "HasPrefix s [] = True"
  by (simp add: HasPrefix_def)

lemma DML_is_comment: "HasPrefix l ''# DML'' \<Longrightarrow> HasPrefix l ''#''"
  by (cases l) auto

lemma length_Split: "length (Split s c) = Suc (length (filter (\<lambda>x. x = c) s))"
  by (induction s) (auto split: list.splits)

subsection \<open>Rounding to float64\<close>

lemma pow2_le_imp_le: "(2::real) powi a \<le> 2 powi b \<Longrightarrow> a \<le> b"
  using power_int_strict_increasing[of b a "2::real"] by (cases "a \<le> b") auto

lemma pow2_less_imp_less: "(2::real) powi a < 2 powi b \<Longrightarrow> a < b"
  using power_int_increasing[of b a "2::real"] by (cases "a < b") auto

lemma bitlen_pos: "0 < n \<Longrightarrow> 1 \<le> bitlen n"
  by (simp add: bitlen_alt_def)

lemma ilog2_pre:
  fixes x :: real
  assumes "0 < x"
  defines "k \<equiv> (if 1 \<le> x then bitlen \<lfloor>x\<rfloor> - 1 else - bitlen \<lfloor>1 / x\<rfloor>)"
  shows "2 powi k \<le> x \<and> x \<le> 2 powi (k + 1)"
proof (cases "1 \<le> x")
  case True
  define n where "n = \<lfloor>x\<rfloor>"
  from True have n: "0 < n" by (simp add: n_def)
  then have b: "1 \<le> bitlen n" by (rule bitlen_pos)
  from True have k: "k = bitlen n - 1" by (simp add: k_def n_def)
  from bitlen_bounds[OF n] have lo: "(2::int) ^ nat (bitlen n - 1) \<le> n"
    and hi: "n < (2::int) ^ nat (bitlen n)" by simp_all
  from lo have "real_of_int (2 ^ nat (bitlen n - 1)) \<le> real_of_int n" by (simp only: of_int_le_iff)
  also have "real_of_int n \<le> x" by (simp add: n_def)
  finally have "2 powi k \<le> x" using b by (simp add: k power_int_nonneg_exp)
  moreover have "x < real_of_int n + 1" by (simp add: n_def)
  moreover from hi have "n + 1 \<le> 2 ^ nat (bitlen n)" by simp
  then have "real_of_int (n + 1) \<le> real_of_int (2 ^ nat (bitlen n))" by (simp only: of_int_le_iff)
  then have "real_of_int n + 1 \<le> 2 powi (k + 1)" using b by (simp add: k power_int_nonneg_exp)
  ultimately show ?thesis by simp
next
  case False
  define y where "y = 1 / x"
  define n where "n = \<lfloor>y\<rfloor>"
  from False assms(1) have y: "1 < y" by (simp add: y_def)
  then have n: "0 < n" by (simp add: n_def)
  then have b: "1 \<le> bitlen n" by (rule bitlen_pos)
  from False have k: "k = - bitlen n" by (simp add: k_def n_def y_def)
  have x: "x = 1 / y" using assms(1) by (simp add: y_def)
  from bitlen_bounds[OF n] have lo: "(2::int) ^ nat (bitlen n - 1) \<le> n"
    and hi: "n < (2::int) ^ nat (bitlen n)" by simp_all
  from lo have "real_of_int (2 ^ nat (bitlen n - 1)) \<le> real_of_int n" by (simp only: of_int_le_iff)
  also have "real_of_int n \<le> y" by (simp add: n_def)
  finally have "2 ^ nat (bitlen n - 1) \<le> y" by simp
  then have "1 / y \<le> 1 / 2 ^ nat (bitlen n - 1)"
    by (intro divide_left_mono) (use y in simp_all)
  also have "1 / 2 ^ nat (bitlen n - 1) = (2::real) powi (k + 1)"
    using b by (simp add: k power_int_def nat_diff_distrib field_simps)
  finally have up: "x \<le> 2 powi (k + 1)" by (simp add: x)
  have "y < real_of_int n + 1" by (simp add: n_def)
  moreover from hi have "n + 1 \<le> 2 ^ nat (bitlen n)" by simp
  then have "real_of_int (n + 1) \<le> real_of_int (2 ^ nat (bitlen n))" by (simp only: of_int_le_iff)
  ultimately have "y \<le> 2 ^ nat (bitlen n)" by simp
  then have "1 / 2 ^ nat (bitlen n) \<le> 1 / y"
    by (intro divide_left_mono) (use y in simp_all)
  moreover have "1 / 2 ^ nat (bitlen n) = (2::real) powi k"
    using b by (simp add: k power_int_def field_simps)
  ultimately have "2 powi k \<le> x" by (simp add: x)
  with up show ?thesis by simp
qed

lemma ilog2_bounds:
  assumes "0 < x"
  shows "2 powi ilog2 x \<le> x" and "x < 2 powi (ilog2 x + 1)"
proof -
  define k where "k = (if 1 \<le> x then bitlen \<lfloor>x\<rfloor> - 1 else - bitlen \<lfloor>1 / x\<rfloor>)"
  from ilog2_pre[OF assms] have pre: "2 powi k \<le> x" "x \<le> 2 powi (k + 1)"
    by (simp_all add: k_def)
  have il: "ilog2 x = (if 2 powi (k + 1) \<le> x then k + 1 else k)"
    by (simp add: ilog2_def k_def Let_def)
  have step: "(2::real) powi (k + 1) < 2 powi (k + 1 + 1)"
    by (intro power_int_strict_increasing) simp_all
  show "2 powi ilog2 x \<le> x" using pre by (simp add: il)
  show "x < 2 powi (ilog2 x + 1)" using pre step by (auto simp: il)
qed

lemma roundHalfEven_ge: "real_of_int a \<le> s \<Longrightarrow> a \<le> roundHalfEven s"
proof -
  assume "real_of_int a \<le> s"
  then have "a \<le> \<lfloor>s\<rfloor>" by (simp add: le_floor_iff)
  then show ?thesis by (simp add: roundHalfEven_def Let_def)
qed

lemma roundHalfEven_le: "s \<le> real_of_int b \<Longrightarrow> roundHalfEven s \<le> b"
proof (cases "s = real_of_int b")
  case True
  then show ?thesis by (simp add: roundHalfEven_def Let_def)
next
  case False
  assume "s \<le> real_of_int b"
  with False have "s < real_of_int b" by simp
  then have "\<lfloor>s\<rfloor> < b" by (simp add: floor_less_iff)
  then show ?thesis by (simp add: roundHalfEven_def Let_def)
qed

lemma roundHalfEven_of_int [simp]: "roundHalfEven (real_of_int a) = a"
  by (simp add: roundHalfEven_def Let_def)

lemma roundHalfEven_numeral [simp]: "roundHalfEven (numeral n) = numeral n"
  using roundHalfEven_of_int[of "numeral n"] by simp

lemma f64_zero [simp]: "f64 0 = 0"
  by (simp add: f64_def)

lemma f64_minus: "f64 (- x) = - f64 x"
  by (simp add: f64_def Let_def sgn_minus)

text \<open>The significand of a positive number lies between 2^52 and 2^53.\<close>

lemma f64_pos_form:
  assumes "0 < x"
  defines "e \<equiv> ilog2 x - 52"
  defines "m \<equiv> roundHalfEven (x / 2 powi e)"
  shows "f64 x = real_of_int m * 2 powi e" and "2 ^ 52 \<le> m" and "m \<le> 2 ^ 53"
proof -
  from assms(1) show "f64 x = real_of_int m * 2 powi e"
    by (simp add: f64_def Let_def e_def m_def)
  have pe: "(0::real) < 2 powi e" by simp
  have split: "(2::real) powi ilog2 x = 2 ^ 52 * 2 powi e"
    "(2::real) powi (ilog2 x + 1) = 2 ^ 53 * 2 powi e"
    by (simp_all add: e_def power_int_diff power_int_add)
  from ilog2_bounds[OF assms(1)] have "2 ^ 52 * 2 powi e \<le> x" "x < 2 ^ 53 * 2 powi e"
    by (simp_all add: split)
  with pe have "2 ^ 52 \<le> x / 2 powi e" "x / 2 powi e \<le> 2 ^ 53"
    by (simp_all add: field_simps)
  then have lo: "real_of_int (2 ^ 52) \<le> x / 2 powi e"
    and hi: "x / 2 powi e \<le> real_of_int (2 ^ 53)"
    by simp_all
  from lo show "2 ^ 52 \<le> m" unfolding m_def by (rule roundHalfEven_ge)
  from hi show "m \<le> 2 ^ 53" unfolding m_def by (rule roundHalfEven_le)
qed

lemma f64_pos: "0 < x \<Longrightarrow> 0 < f64 x"
proof -
  assume x: "0 < x"
  from f64_pos_form(2)[OF x] have "0 < roundHalfEven (x / 2 powi (ilog2 x - 52))" by simp
  with f64_pos_form(1)[OF x] show ?thesis by simp
qed

lemma f64_neg: "x < 0 \<Longrightarrow> f64 x < 0"
  using f64_pos[of "- x"] by (simp add: f64_minus)

lemma f64_nonneg: "0 \<le> x \<Longrightarrow> 0 \<le> f64 x"
  using f64_pos[of x] by (cases "x = 0") auto

lemma f64_nonpos: "x \<le> 0 \<Longrightarrow> f64 x \<le> 0"
  using f64_neg[of x] by (cases "x = 0") auto

lemma f64_pos_iff: "0 < f64 x \<longleftrightarrow> 0 < x"
  using f64_pos[of x] f64_nonpos[of x] by (cases "0 < x") auto

lemma f64_ge_pow2:
  assumes "2 powi k \<le> x"
  shows "2 powi k \<le> f64 x"
proof -
  have x: "0 < x" using assms zero_less_power_int[of "2::real" k] by linarith
  from assms ilog2_bounds(2)[OF x] have "(2::real) powi k < 2 powi (ilog2 x + 1)" by simp
  then have "k \<le> ilog2 x" using pow2_less_imp_less by fastforce
  then have "(2::real) powi k \<le> 2 powi ilog2 x" by (intro power_int_increasing) simp_all
  also have "\<dots> = 2 ^ 52 * 2 powi (ilog2 x - 52)" by (simp add: power_int_diff)
  also have "\<dots> \<le> real_of_int (roundHalfEven (x / 2 powi (ilog2 x - 52))) * 2 powi (ilog2 x - 52)"
    using f64_pos_form(2)[OF x] by (intro mult_right_mono) (simp_all flip: of_int_le_iff)
  also have "\<dots> = f64 x" using f64_pos_form(1)[OF x] by simp
  finally show ?thesis .
qed

lemma f64_pow2 [simp]: "f64 (2 powi k) = 2 powi k"
proof -
  have x: "(0::real) < 2 powi k" by simp
  have "(2::real) powi ilog2 (2 powi k) \<le> 2 powi k" "(2::real) powi k < 2 powi (ilog2 (2 powi k) + 1)"
    using ilog2_bounds[OF x] by simp_all
  then have "ilog2 (2 powi k) \<le> k" "k < ilog2 (2 powi k) + 1"
    using pow2_le_imp_le pow2_less_imp_less by blast+
  then have il: "ilog2 (2 powi k) = k" by simp
  have "(2::real) powi k / 2 powi (k - 52) = real_of_int (2 ^ 52)"
    by (simp add: power_int_diff)
  then show ?thesis
    by (simp add: f64_def Let_def il power_int_diff del: of_int_power of_int_numeral)
qed

lemma f64_le_pow2:
  assumes "x \<le> 2 powi k"
  shows "f64 x \<le> 2 powi k"
proof (cases "0 < x")
  case False
  then have "f64 x \<le> 0" by (intro f64_nonpos) simp
  also have "(0::real) \<le> 2 powi k" by simp
  finally show ?thesis .
next
  case x: True
  show ?thesis
  proof (cases "x = 2 powi k")
    case True
    then show ?thesis by simp
  next
    case False
    with assms have "x < 2 powi k" by simp
    with ilog2_bounds(1)[OF x] have "(2::real) powi ilog2 x < 2 powi k" by simp
    then have "ilog2 x + 1 \<le> k" using pow2_less_imp_less by fastforce
    have "f64 x = real_of_int (roundHalfEven (x / 2 powi (ilog2 x - 52))) * 2 powi (ilog2 x - 52)"
      using f64_pos_form(1)[OF x] by simp
    also have "\<dots> \<le> 2 ^ 53 * 2 powi (ilog2 x - 52)"
      using f64_pos_form(3)[OF x] by (intro mult_right_mono) (simp_all flip: of_int_le_iff)
    also have "\<dots> = 2 powi (ilog2 x + 1)" by (simp add: power_int_diff power_int_add)
    also have "\<dots> \<le> 2 powi k" using \<open>ilog2 x + 1 \<le> k\<close> by (intro power_int_increasing) simp_all
    finally show ?thesis .
  qed
qed

subsection \<open>Seconds and the rate\<close>

lemma truncDiv_nonneg: "0 \<le> a \<Longrightarrow> 0 < b \<Longrightarrow> truncDiv a b = a div b"
  by (cases "a = 0") (simp_all add: truncDiv_def)

lemma truncMod_nonneg: "0 \<le> a \<Longrightarrow> 0 < b \<Longrightarrow> truncMod a b = a mod b"
  by (simp add: truncMod_def truncDiv_nonneg minus_mult_div_eq_mod)

lemma truncDiv_nonpos: "a \<le> 0 \<Longrightarrow> 0 < b \<Longrightarrow> truncDiv a b = - ((- a) div b)"
  by (cases "a = 0") (simp_all add: truncDiv_def)

lemma truncMod_nonpos: "a \<le> 0 \<Longrightarrow> 0 < b \<Longrightarrow> truncMod a b = - ((- a) mod b)"
  by (simp add: truncMod_def truncDiv_nonpos algebra_simps flip: minus_mult_div_eq_mod)

lemma Seconds_pos_iff: "0 < Seconds d \<longleftrightarrow> 0 < d"
proof (cases "0 < d")
  case True
  define sec where "sec = d div 1000000000"
  define nsec where "nsec = d mod 1000000000"
  from True have sec: "0 \<le> sec" and nsec: "0 \<le> nsec"
    by (simp_all add: sec_def nsec_def pos_imp_zdiv_nonneg_iff)
  have "d = sec * 1000000000 + nsec" by (simp add: sec_def nsec_def)
  with True sec nsec have some: "0 < sec \<or> 0 < nsec" by (cases "sec = 0") auto
  have a: "0 \<le> f64 (real_of_int sec)" using sec by (intro f64_nonneg) simp
  have b: "0 \<le> f64 (f64 (real_of_int nsec) / 1000000000)"
    using nsec by (intro f64_nonneg divide_nonneg_pos) simp_all
  from some have "0 < f64 (real_of_int sec) + f64 (f64 (real_of_int nsec) / 1000000000)"
  proof
    assume "0 < sec"
    then have "0 < f64 (real_of_int sec)" by (intro f64_pos) simp
    with b show ?thesis by linarith
  next
    assume "0 < nsec"
    then have "0 < f64 (f64 (real_of_int nsec) / 1000000000)"
      by (intro f64_pos divide_pos_pos) simp_all
    with a show ?thesis by linarith
  qed
  then have "0 < f64 (f64 (real_of_int sec) + f64 (f64 (real_of_int nsec) / 1000000000))"
    by (rule f64_pos)
  with True show ?thesis
    by (simp add: Seconds_def Let_def truncDiv_nonneg truncMod_nonneg sec_def nsec_def)
next
  case False
  define sec where "sec = - ((- d) div 1000000000)"
  define nsec where "nsec = - ((- d) mod 1000000000)"
  from False have sec: "sec \<le> 0" and nsec: "nsec \<le> 0"
    by (simp_all add: sec_def nsec_def pos_imp_zdiv_nonneg_iff)
  have a: "f64 (real_of_int sec) \<le> 0" using sec by (intro f64_nonpos) simp
  have "f64 (real_of_int nsec) \<le> 0" using nsec by (intro f64_nonpos) simp
  then have "f64 (real_of_int nsec) / 1000000000 \<le> 0" by (simp add: divide_le_0_iff)
  then have "f64 (f64 (real_of_int nsec) / 1000000000) \<le> 0" by (rule f64_nonpos)
  with a have "f64 (real_of_int sec) + f64 (f64 (real_of_int nsec) / 1000000000) \<le> 0" by linarith
  then have "f64 (f64 (real_of_int sec) + f64 (f64 (real_of_int nsec) / 1000000000)) \<le> 0"
    by (rule f64_nonpos)
  with False show ?thesis
    by (simp add: Seconds_def Let_def truncDiv_nonpos truncMod_nonpos sec_def nsec_def)
qed

lemma Seconds_ge_pow2:
  assumes "2 ^ K * 1000000000 \<le> d"
  shows "2 ^ K \<le> Seconds d"
proof -
  define sec where "sec = d div 1000000000"
  define nsec where "nsec = d mod 1000000000"
  have d: "0 \<le> d"
  proof -
    have "(0::int) \<le> 2 ^ K * 1000000000" by simp
    with assms show ?thesis by linarith
  qed
  from assms have "2 ^ K \<le> sec"
    unfolding sec_def by (simp add: zdiv_mono1 flip: div_mult_self_is_m[of 1000000000 "2 ^ K"])
  then have "real_of_int (2 ^ K) \<le> real_of_int sec" by (simp only: of_int_le_iff)
  then have "(2::real) powi int K \<le> real_of_int sec" by simp
  then have a: "(2::real) powi int K \<le> f64 (real_of_int sec)" by (rule f64_ge_pow2)
  have "0 \<le> nsec" by (simp add: nsec_def)
  then have b: "0 \<le> f64 (f64 (real_of_int nsec) / 1000000000)"
    by (intro f64_nonneg divide_nonneg_pos) simp_all
  from a b have "(2::real) powi int K \<le> f64 (real_of_int sec) + f64 (f64 (real_of_int nsec) / 1000000000)"
    by linarith
  then have "(2::real) powi int K
      \<le> f64 (f64 (real_of_int sec) + f64 (f64 (real_of_int nsec) / 1000000000))"
    by (rule f64_ge_pow2)
  with d show ?thesis
    by (simp add: Seconds_def Let_def truncDiv_nonneg truncMod_nonneg sec_def nsec_def)
qed

lemma currentPPS_no_elapsed: "since \<le> 0 \<Longrightarrow> currentPPS points since = points"
  by (simp add: currentPPS_def Seconds_pos_iff)

lemma currentPPS_elapsed:
  "0 < since \<Longrightarrow>
     currentPPS points since = toInt (f64 (f64 (real_of_int points) / Seconds since))"
  by (simp add: currentPPS_def Seconds_pos_iff)

lemma currentPPS_settles:
  assumes "points \<le> 2 ^ K" and "2 ^ Suc K * 1000000000 \<le> since"
  shows "currentPPS points since \<le> 0"
proof -
  have since: "0 < since"
  proof -
    have "(0::int) < 2 ^ Suc K * 1000000000" by simp
    with assms(2) show ?thesis by linarith
  qed
  from assms(2) have S: "2 ^ Suc K \<le> Seconds since" by (rule Seconds_ge_pow2)
  then have Spos: "0 < Seconds since"
    using zero_less_power[of "2::real" "Suc K"] by linarith
  from assms(1) have "real_of_int points \<le> real_of_int (2 ^ K)" by (simp only: of_int_le_iff)
  then have "real_of_int points \<le> 2 powi int K" by simp
  then have "f64 (real_of_int points) \<le> 2 powi int K" by (rule f64_le_pow2)
  then have P: "f64 (real_of_int points) \<le> 2 ^ K" by simp
  define q where "q = f64 (real_of_int points) / Seconds since"
  have "q \<le> 2 ^ K / 2 ^ Suc K"
    unfolding q_def using P S by (intro frac_le) simp_all
  then have "q \<le> 2 powi (- 1)" by (simp add: power_int_minus field_simps)
  then have "f64 q \<le> 2 powi (- 1)" by (rule f64_le_pow2)
  then have "f64 q < 1" by (simp add: power_int_minus)
  then have "toInt (f64 q) \<le> 0"
    by (auto simp: toInt_def floor_le_iff ceiling_le_iff)
  with since show ?thesis by (simp add: currentPPS_elapsed q_def)
qed

lemma roundHalfEven_error: "\<bar>real_of_int (roundHalfEven s) - s\<bar> \<le> 1 / 2"
proof -
  have "real_of_int \<lfloor>s\<rfloor> \<le> s" "s < real_of_int \<lfloor>s\<rfloor> + 1" by linarith+
  then show ?thesis by (auto simp: roundHalfEven_def Let_def)
qed

lemma f64_relative:
  assumes "0 \<le> x"
  shows "(1 - 1 / 2 ^ 53) * x \<le> f64 x" and "f64 x \<le> (1 + 1 / 2 ^ 53) * x"
proof -
  have "(1 - 1 / 2 ^ 53) * x \<le> f64 x \<and> f64 x \<le> (1 + 1 / 2 ^ 53) * x"
  proof (cases "x = 0")
    case True
    then show ?thesis by simp
  next
    case False
    with assms have x: "0 < x" by simp
    define e where "e = ilog2 x - 52"
    define s where "s = x / 2 powi e"
    define m where "m = roundHalfEven s"
    have pe: "(0::real) < 2 powi e" by simp
    have fx: "f64 x = real_of_int m * 2 powi e"
      using f64_pos_form(1)[OF x] by (simp add: m_def s_def e_def)
    have xs: "x = s * 2 powi e" by (simp add: s_def)
    have "(2::real) powi ilog2 x = 2 ^ 52 * 2 powi e"
      by (simp add: e_def power_int_diff)
    with ilog2_bounds(1)[OF x] have "2 ^ 52 * 2 powi e \<le> x" by simp
    with pe have s: "2 ^ 52 \<le> s" by (simp add: s_def field_simps)
    define h where "h = s / 2 ^ 53"
    from s have half: "1 / 2 \<le> h" by (simp add: h_def)
    have err: "\<bar>real_of_int m - s\<bar> \<le> 1 / 2" unfolding m_def by (rule roundHalfEven_error)
    have eq: "(1 - 1 / 2 ^ 53) * s = s - h" "(1 + 1 / 2 ^ 53) * s = s + h"
      by (simp_all add: algebra_simps h_def)
    from half err have "s - h \<le> real_of_int m" "real_of_int m \<le> s + h"
      by linarith+
    then have "(1 - 1 / 2 ^ 53) * s \<le> real_of_int m" "real_of_int m \<le> (1 + 1 / 2 ^ 53) * s"
      by (simp_all only: eq)
    then have "(1 - 1 / 2 ^ 53) * s * 2 powi e \<le> real_of_int m * 2 powi e"
      "real_of_int m * 2 powi e \<le> (1 + 1 / 2 ^ 53) * s * 2 powi e"
      using pe by (simp_all only: mult_le_cancel_right_pos)
    moreover have "(1 - 1 / 2 ^ 53) * x = (1 - 1 / 2 ^ 53) * s * 2 powi e"
      "(1 + 1 / 2 ^ 53) * x = (1 + 1 / 2 ^ 53) * s * 2 powi e"
      by (simp_all only: xs mult.assoc)
    ultimately show ?thesis by (simp only: fx)
  qed
  then show "(1 - 1 / 2 ^ 53) * x \<le> f64 x" and "f64 x \<le> (1 + 1 / 2 ^ 53) * x" by simp_all
qed

lemma Seconds_relative:
  assumes "0 < d"
  shows "(1 - 1 / 2 ^ 53) ^ 3 * (real_of_int d / 1000000000) \<le> Seconds d"
    and "Seconds d \<le> (1 + 1 / 2 ^ 53) ^ 3 * (real_of_int d / 1000000000)"
proof -
  define lo :: real where "lo = 1 - 1 / 2 ^ 53"
  define hi :: real where "hi = 1 + 1 / 2 ^ 53"
  have lo: "0 \<le> lo" "lo \<le> 1" and hi: "1 \<le> hi" "0 \<le> hi" by (simp_all add: lo_def hi_def)
  define sec where "sec = real_of_int (d div 1000000000)"
  define ns where "ns = real_of_int (d mod 1000000000)"
  have sec: "0 \<le> sec" and ns: "0 \<le> ns"
    using assms by (simp_all add: sec_def ns_def pos_imp_zdiv_nonneg_iff)
  have "real_of_int (d div 1000000000 * 1000000000 + d mod 1000000000)
      = real_of_int (d div 1000000000) * 1000000000 + real_of_int (d mod 1000000000)"
    by (simp only: of_int_add of_int_mult of_int_numeral)
  moreover have "d div 1000000000 * 1000000000 + d mod 1000000000 = d" by simp
  ultimately have "real_of_int d = sec * 1000000000 + ns"
    by (simp only: sec_def ns_def)
  then have T: "real_of_int d / 1000000000 = sec + ns / 1000000000"
    by simp
  define A where "A = f64 sec"
  define B0 where "B0 = f64 ns"
  define B where "B = f64 (B0 / 1000000000)"
  have A: "lo * sec \<le> A" "A \<le> hi * sec"
    unfolding A_def lo_def hi_def using f64_relative[OF sec] by simp_all
  have B0: "lo * ns \<le> B0" "B0 \<le> hi * ns" "0 \<le> B0"
    unfolding B0_def lo_def hi_def using f64_relative[OF ns] f64_nonneg[OF ns] by simp_all
  have B0': "0 \<le> B0 / 1000000000" using B0(3) by simp
  have B: "lo * (B0 / 1000000000) \<le> B" "B \<le> hi * (B0 / 1000000000)"
    unfolding B_def lo_def hi_def using f64_relative[OF B0'] by simp_all
  have "lo * lo * sec \<le> lo * sec" using lo sec by (simp add: mult_left_le_one_le mult_right_mono)
  with A(1) have A1: "lo ^ 2 * sec \<le> A" by (simp add: power2_eq_square)
  have "hi * sec \<le> hi * hi * sec" using hi sec by (simp add: mult_right_mono)
  with A(2) have A2: "A \<le> hi ^ 2 * sec" by (simp add: power2_eq_square)
  have "lo * (lo * ns / 1000000000) \<le> lo * (B0 / 1000000000)"
    using lo B0(1) by (intro mult_left_mono divide_right_mono) simp_all
  with B(1) have B1: "lo ^ 2 * (ns / 1000000000) \<le> B" by (simp add: power2_eq_square)
  have "hi * (B0 / 1000000000) \<le> hi * (hi * ns / 1000000000)"
    using hi B0(2) by (intro mult_left_mono divide_right_mono) simp_all
  with B(2) have B2: "B \<le> hi ^ 2 * (ns / 1000000000)" by (simp add: power2_eq_square)
  from A1 B1 have AB1: "lo ^ 2 * (sec + ns / 1000000000) \<le> A + B" by (simp add: algebra_simps)
  from A2 B2 have AB2: "A + B \<le> hi ^ 2 * (sec + ns / 1000000000)" by (simp add: algebra_simps)
  have T0: "0 \<le> sec + ns / 1000000000" using sec ns by simp
  have AB0: "0 \<le> A + B"
  proof -
    have "0 \<le> lo ^ 2 * (sec + ns / 1000000000)" using T0 by simp
    with AB1 show ?thesis by linarith
  qed
  have S: "Seconds d = f64 (A + B)"
    using assms by (simp add: Seconds_def Let_def truncDiv_nonneg truncMod_nonneg A_def B_def
        B0_def sec_def ns_def)
  have "lo * (lo ^ 2 * (sec + ns / 1000000000)) \<le> lo * (A + B)"
    using lo AB1 by (intro mult_left_mono) simp_all
  also have "lo * (A + B) \<le> f64 (A + B)"
    unfolding lo_def using f64_relative(1)[OF AB0] by simp
  finally have low: "lo ^ 3 * (sec + ns / 1000000000) \<le> Seconds d"
    by (simp add: S power3_eq_cube mult.assoc power2_eq_square)
  have "f64 (A + B) \<le> hi * (A + B)"
    unfolding hi_def using f64_relative(2)[OF AB0] by simp
  also have "hi * (A + B) \<le> hi * (hi ^ 2 * (sec + ns / 1000000000))"
    using hi AB2 by (intro mult_left_mono) simp_all
  finally have high: "Seconds d \<le> hi ^ 3 * (sec + ns / 1000000000)"
    by (simp add: S power3_eq_cube mult.assoc power2_eq_square)
  from low show "(1 - 1 / 2 ^ 53) ^ 3 * (real_of_int d / 1000000000) \<le> Seconds d"
    by (simp only: T lo_def)
  from high show "Seconds d \<le> (1 + 1 / 2 ^ 53) ^ 3 * (real_of_int d / 1000000000)"
    by (simp only: T hi_def)
qed

text \<open>The rate, against the exact quotient of the count by the elapsed seconds.\<close>

lemma currentPPS_accuracy:
  assumes "0 < since" and "0 \<le> points"
  defines "exact \<equiv> real_of_int points / (real_of_int since / 1000000000)"
  shows "real_of_int (currentPPS points since)
           \<le> (1 + 1 / 2 ^ 53) ^ 2 / (1 - 1 / 2 ^ 53) ^ 3 * exact"
    and "(1 - 1 / 2 ^ 53) ^ 2 / (1 + 1 / 2 ^ 53) ^ 3 * exact
           < real_of_int (currentPPS points since) + 1"
proof -
  define lo :: real where "lo = 1 - 1 / 2 ^ 53"
  define hi :: real where "hi = 1 + 1 / 2 ^ 53"
  have lo: "0 < lo" "lo \<le> 1" and hi: "1 \<le> hi" "0 < hi" by (simp_all add: lo_def hi_def)
  define T where "T = real_of_int since / 1000000000"
  have T: "0 < T" using assms(1) by (simp add: T_def)
  define S where "S = Seconds since"
  have S: "lo ^ 3 * T \<le> S" "S \<le> hi ^ 3 * T"
    unfolding S_def T_def lo_def hi_def using Seconds_relative[OF assms(1)] by simp_all
  have S0: "0 < S" unfolding S_def using assms(1) by (simp add: Seconds_pos_iff)
  define n where "n = real_of_int points"
  have n: "0 \<le> n" using assms(2) by (simp add: n_def)
  define P where "P = f64 n"
  have P: "lo * n \<le> P" "P \<le> hi * n" "0 \<le> P"
    unfolding P_def lo_def hi_def using f64_relative[OF n] f64_nonneg[OF n] by simp_all
  define Q where "Q = P / S"
  have Q0: "0 \<le> Q" unfolding Q_def using P(3) S0 by simp
  have loT: "0 < lo ^ 3 * T" and hiT: "0 < hi ^ 3 * T" using lo hi T by simp_all
  have Q2: "Q \<le> hi * n / (lo ^ 3 * T)"
    unfolding Q_def using P(2) S(1) loT n hi by (intro frac_le) simp_all
  have Q1: "lo * n / (hi ^ 3 * T) \<le> Q"
    unfolding Q_def using P(1,3) S(2) S0 by (intro frac_le) simp_all
  define R where "R = f64 Q"
  have R: "lo * Q \<le> R" "R \<le> hi * Q" "0 \<le> R"
    unfolding R_def lo_def hi_def using f64_relative[OF Q0] f64_nonneg[OF Q0] by simp_all
  have "hi * Q \<le> hi * (hi * n / (lo ^ 3 * T))"
    using hi Q2 by (intro mult_left_mono) simp_all
  with R(2) have R2: "R \<le> hi ^ 2 / lo ^ 3 * (n / T)"
    by (simp add: power2_eq_square)
  have "lo * (lo * n / (hi ^ 3 * T)) \<le> lo * Q"
    using lo Q1 by (intro mult_left_mono) simp_all
  with R(1) have R1: "lo ^ 2 / hi ^ 3 * (n / T) \<le> R"
    by (simp add: power2_eq_square)
  have c: "currentPPS points since = \<lfloor>R\<rfloor>"
    using assms(1) R(3) by (simp add: currentPPS_elapsed toInt_def R_def Q_def P_def S_def n_def)
  have fl: "real_of_int \<lfloor>R\<rfloor> \<le> R" "R < real_of_int \<lfloor>R\<rfloor> + 1" by linarith+
  from R2 fl(1) have "real_of_int \<lfloor>R\<rfloor> \<le> hi ^ 2 / lo ^ 3 * (n / T)" by linarith
  moreover from R1 fl(2) have "lo ^ 2 / hi ^ 3 * (n / T) < real_of_int \<lfloor>R\<rfloor> + 1" by linarith
  ultimately have "real_of_int (currentPPS points since) \<le> hi ^ 2 / lo ^ 3 * (n / T)"
    "lo ^ 2 / hi ^ 3 * (n / T) < real_of_int (currentPPS points since) + 1"
    by (simp_all only: c)
  then show "real_of_int (currentPPS points since)
           \<le> (1 + 1 / 2 ^ 53) ^ 2 / (1 - 1 / 2 ^ 53) ^ 3 * exact"
    and "(1 - 1 / 2 ^ 53) ^ 2 / (1 + 1 / 2 ^ 53) ^ 3 * exact
           < real_of_int (currentPPS points since) + 1"
    by (simp_all only: exact_def lo_def hi_def n_def T_def)
qed

subsection \<open>The flush, in closed form\<close>

lemma batchWrite_retry:
  "overLimit i (clock w (reads w)) \<Longrightarrow> batchWrite i w = batchWrite i (waited w 1)"
  by (subst batchWrite.simps) (simp add: overLimit_def Now_def waited_def)

lemma batchWrite_write:
  "\<not> overLimit i (clock w (reads w)) \<Longrightarrow> batchWrite i w = Some (flushNow i w)"
  by (subst batchWrite.simps) (auto simp: overLimit_def Now_def flushNow_def Let_def)

lemma waited_simps [simp]:
  "clock (waited w k) = clock w" "reads (waited w k) = reads w + k"
  "ticks (waited w k) = ticks w + k" "writeFails (waited w k) = writeFails w"
  "writes (waited w k) = writes w" "queries (waited w k) = queries w"
  "stdout (waited w k) = stdout w"
  by (simp_all add: waited_def)

lemma waited_waited: "waited (waited w j) k = waited w (j + k)"
  by (simp add: waited_def add.assoc)

lemma waited_0 [simp]: "waited w 0 = w"
  by (simp add: waited_def)

lemma batchWrite_retries:
  "\<forall>j<k. overLimit i (clock w (reads w + j)) \<Longrightarrow> batchWrite i w = batchWrite i (waited w k)"
proof (induction k arbitrary: w)
  case 0
  then show ?case by simp
next
  case (Suc k)
  from Suc.prems have "overLimit i (clock w (reads w))"
    by (metis add.right_neutral zero_less_Suc)
  then have "batchWrite i w = batchWrite i (waited w 1)"
    by (rule batchWrite_retry)
  also have "\<dots> = batchWrite i (waited (waited w 1) k)"
  proof (rule Suc.IH, intro allI impI)
    fix j assume "j < k"
    then have "overLimit i (clock w (reads w + Suc j))"
      using Suc.prems[rule_format, of "Suc j"] by simp
    then show "overLimit i (clock (waited w 1) (reads (waited w 1) + j))" by simp
  qed
  finally show ?case by (simp add: waited_waited)
qed

lemma batchWrite_passes:
  "batchWrite i w = Some r \<Longrightarrow> \<exists>k. \<not> overLimit i (clock w (reads w + k))"
proof (induction rule: batchWrite.raw_induct[rotated 1, consumes 1])
  case (1 bw i w r)
  show ?case
  proof (cases "overLimit i (clock w (reads w))")
    case True
    with 1(2) have "bw i (waited w 1) = Some r"
      by (simp add: overLimit_def Now_def waited_def)
    from 1(1)[OF this] obtain k where "\<not> overLimit i (clock w (reads w + 1 + k))" by auto
    then show ?thesis by (metis add.assoc)
  next
    case False
    then show ?thesis by (metis add.right_neutral)
  qed
qed

lemma batchWrite_eq:
  assumes "\<not> overLimit i (clock w (reads w + k))" "\<forall>j<k. overLimit i (clock w (reads w + j))"
  shows "batchWrite i w = Some (flushNow i (waited w k))"
proof -
  have "batchWrite i w = batchWrite i (waited w k)"
    using assms(2) by (rule batchWrite_retries)
  also have "\<dots> = Some (flushNow i (waited w k))"
    using assms(1) by (intro batchWrite_write) simp
  finally show ?thesis .
qed

lemma batchWrite_Some:
  assumes "batchWrite i w = Some r"
  shows "\<exists>k. (\<forall>j<k. overLimit i (clock w (reads w + j))) \<and> \<not> overLimit i (clock w (reads w + k))
           \<and> r = flushNow i (waited w k)"
proof -
  from batchWrite_passes[OF assms] obtain k0 where k0: "\<not> overLimit i (clock w (reads w + k0))" ..
  define k where "k = (LEAST k. \<not> overLimit i (clock w (reads w + k)))"
  have a: "\<not> overLimit i (clock w (reads w + k))"
    unfolding k_def using k0 by (rule LeastI)
  have b: "\<forall>j<k. overLimit i (clock w (reads w + j))"
    unfolding k_def using not_less_Least by blast
  from batchWrite_eq[OF a b] assms have "r = flushNow i (waited w k)" by simp
  with a b show ?thesis by blast
qed

lemma batchWrite_returns:
  assumes "\<not> overLimit i (clock w (reads w + k0))"
  shows "\<exists>r. batchWrite i w = Some r"
proof -
  define k where "k = (LEAST k. \<not> overLimit i (clock w (reads w + k)))"
  have a: "\<not> overLimit i (clock w (reads w + k))"
    unfolding k_def using assms by (rule LeastI)
  have b: "\<forall>j<k. overLimit i (clock w (reads w + j))"
    unfolding k_def using not_less_Least by blast
  from batchWrite_eq[OF a b] show ?thesis by blast
qed

lemma flushNow_importer [simp]:
  "batch (fst (flushNow i w)) = batch i"
  "database (fst (flushNow i w)) = database i"
  "retentionPolicy (fst (flushNow i w)) = retentionPolicy i"
  "config (fst (flushNow i w)) = config i"
  "createDatabaseQuery (fst (flushNow i w)) = createDatabaseQuery i"
  "totalCommands (fst (flushNow i w)) = totalCommands i"
  "throttlePointsWritten (fst (flushNow i w)) = 0"
  "lastWrite (fst (flushNow i w)) = clock w (Suc (reads w))"
  "totalInserts (fst (flushNow i w)) =
     (if writeFails w (length (writes w)) then totalInserts i
      else totalInserts i + int (length (batch i)))"
  "failedInserts (fst (flushNow i w)) =
     (if writeFails w (length (writes w)) then failedInserts i + int (length (batch i))
      else failedInserts i)"
  by (simp_all add: flushNow_def transportWrite_def Now_def Let_def split: prod.splits)

lemma flushNow_world [simp]:
  "clock (snd (flushNow i w)) = clock w"
  "reads (snd (flushNow i w)) = Suc (Suc (reads w))"
  "writeFails (snd (flushNow i w)) = writeFails w"
  "queries (snd (flushNow i w)) = queries w"
  "ticks (snd (flushNow i w)) = ticks w"
  "writes (snd (flushNow i w)) =
     writes w @ [(Join (batch i) [CHR 0x0A], database i, retentionPolicy i,
                  Precision (config i), WriteConsistency (config i))]"
  "stdout (snd (flushNow i w)) =
     (if writeFails w (length (writes w))
      then stdout w @ Join (batch i) [CHR 0x0A] @ [CHR 0x0A] else stdout w)"
  by (simp_all add: flushNow_def transportWrite_def Now_def Let_def split: prod.splits)

lemma batchWrite_result:
  assumes "batchWrite i w = Some (i', w')"
  obtains k where "\<forall>j<k. overLimit i (clock w (reads w + j))"
    and "\<not> overLimit i (clock w (reads w + k))"
    and "i' = fst (flushNow i (waited w k))" and "w' = snd (flushNow i (waited w k))"
  using batchWrite_Some[OF assms] by (metis fst_conv snd_conv)

subsection \<open>The accumulator and the scan of phase 2\<close>

lemma Split_context:
  assumes "HasPrefix line ''# CONTEXT-DATABASE:'' \<or> HasPrefix line ''# CONTEXT-RETENTION-POLICY:''"
  shows "1 < length (Split line CHR '':'')"
proof -
  from assms have "CHR '':'' \<in> set line"
    by (auto simp: HasPrefix_iff prefix_def)
  then have "filter (\<lambda>x. x = CHR '':'') line \<noteq> []"
    by (simp add: filter_empty_conv)
  then show ?thesis
    by (cases "filter (\<lambda>x. x = CHR '':'') line") (simp_all add: length_Split)
qed

lemma contextDatabase_eq:
  "contextDatabase dbo line i =
     Inr (if dbo = [] \<and> HasPrefix line ''# CONTEXT-DATABASE:''
          then i\<lparr>database := TrimSpace (Split line CHR '':'' ! 1)\<rparr> else i)"
  using Split_context[of line] by (simp add: contextDatabase_def index_def)

lemma contextRetentionPolicy_eq:
  "contextRetentionPolicy rpo line i =
     Inr (if rpo = [] \<and> HasPrefix line ''# CONTEXT-RETENTION-POLICY:''
          then i\<lparr>retentionPolicy := TrimSpace (Split line CHR '':'' ! 1)\<rparr> else i)"
  using Split_context[of line] by (simp add: contextRetentionPolicy_def index_def)

lemma scanDML_Cons:
  "scanDML dbo rpo start (line # rest) i w =
     (if isStatement line
      then (case batchAccumulator line start (setContext dbo rpo line i) w of
              None \<Rightarrow> None
            | Some (i3, w3) \<Rightarrow> scanDML dbo rpo start rest i3 w3)
      else scanDML dbo rpo start rest (setContext dbo rpo line i) w)"
  by (simp add: contextDatabase_eq contextRetentionPolicy_eq setContext_def isStatement_def Let_def)

lemma setContext_fields [simp]:
  "config (setContext dbo rpo line i) = config i"
  "batch (setContext dbo rpo line i) = batch i"
  "totalInserts (setContext dbo rpo line i) = totalInserts i"
  "failedInserts (setContext dbo rpo line i) = failedInserts i"
  "totalCommands (setContext dbo rpo line i) = totalCommands i"
  "throttlePointsWritten (setContext dbo rpo line i) = throttlePointsWritten i"
  "lastWrite (setContext dbo rpo line i) = lastWrite i"
  "createDatabaseQuery (setContext dbo rpo line i) = createDatabaseQuery i"
  by (simp_all add: setContext_def Let_def)

lemma setContext_database [simp]:
  "dbo \<noteq> [] \<Longrightarrow> database (setContext dbo rpo line i) = database i"
  by (simp add: setContext_def Let_def)

lemma setContext_retentionPolicy [simp]:
  "rpo \<noteq> [] \<Longrightarrow> retentionPolicy (setContext dbo rpo line i) = retentionPolicy i"
  by (simp add: setContext_def Let_def)

lemma batchAccumulator_append:
  "length (batch i) + 1 \<noteq> batchSize \<Longrightarrow>
     batchAccumulator line start i w = Some (i\<lparr>batch := batch i @ [line]\<rparr>, w)"
  by (simp add: batchAccumulator_def Let_def)

lemma batchAccumulator_flush:
  assumes "length (batch i) + 1 = batchSize"
    and "batchAccumulator line start i w = Some (i', w')"
  obtains k w2 where "\<forall>j<k. overLimit (i\<lparr>batch := batch i @ [line]\<rparr>) (clock w (reads w + j))"
    and "\<not> overLimit (i\<lparr>batch := batch i @ [line]\<rparr>) (clock w (reads w + k))"
    and "i' = (fst (flushNow (i\<lparr>batch := batch i @ [line]\<rparr>) (waited w k)))\<lparr>batch := []\<rparr>"
    and "w2 = snd (flushNow (i\<lparr>batch := batch i @ [line]\<rparr>) (waited w k))"
    and "w' = w2 \<or> w' = w2\<lparr>reads := Suc (reads w2)\<rparr>"
proof -
  let ?i1 = "i\<lparr>batch := batch i @ [line]\<rparr>"
  from assms obtain i2 w2 where bw: "batchWrite ?i1 w = Some (i2, w2)"
    and i': "i' = i2\<lparr>batch := []\<rparr>"
    and w': "w' = w2 \<or> w' = w2\<lparr>reads := Suc (reads w2)\<rparr>"
    by (auto simp: batchAccumulator_def Let_def Now_def split: option.splits if_splits)
  from bw obtain k where "\<forall>j<k. overLimit ?i1 (clock w (reads w + j))"
    "\<not> overLimit ?i1 (clock w (reads w + k))"
    "i2 = fst (flushNow ?i1 (waited w k))" "w2 = snd (flushNow ?i1 (waited w k))"
    by (rule batchWrite_result)
  with i' w' that show thesis by blast
qed

lemma batchAccumulator_Some:
  assumes "batchAccumulator line start i w = Some (i', w')"
  shows "config i' = config i \<and> database i' = database i
    \<and> retentionPolicy i' = retentionPolicy i
    \<and> createDatabaseQuery i' = createDatabaseQuery i
    \<and> totalCommands i' = totalCommands i
    \<and> clock w' = clock w \<and> writeFails w' = writeFails w \<and> queries w' = queries w
    \<and> totalInserts i' + failedInserts i' + int (length (batch i')) =
           totalInserts i + failedInserts i + int (length (batch i)) + 1
    \<and> batch i' = (if length (batch i) + 1 = batchSize then [] else batch i @ [line])
    \<and> writes w' =
           (if length (batch i) + 1 = batchSize
            then writes w @ [(Join (batch i @ [line]) [CHR 0x0A], database i, retentionPolicy i,
                              Precision (config i), WriteConsistency (config i))]
            else writes w)"
proof (cases "length (batch i) + 1 = batchSize")
  case False
  with assms have "i' = i\<lparr>batch := batch i @ [line]\<rparr>" "w' = w"
    by (simp_all add: batchAccumulator_append)
  with False show ?thesis by simp
next
  case True
  from True assms obtain k w2 where
    i': "i' = (fst (flushNow (i\<lparr>batch := batch i @ [line]\<rparr>) (waited w k)))\<lparr>batch := []\<rparr>"
    and w2: "w2 = snd (flushNow (i\<lparr>batch := batch i @ [line]\<rparr>) (waited w k))"
    and w': "w' = w2 \<or> w' = w2\<lparr>reads := Suc (reads w2)\<rparr>"
    by (rule batchAccumulator_flush)
  from w' show ?thesis
  proof
    assume "w' = w2"
    with True i' w2 show ?thesis by simp
  next
    assume "w' = w2\<lparr>reads := Suc (reads w2)\<rparr>"
    with True i' w2 show ?thesis by simp
  qed
qed

declare scanDML.simps(2) [simp del]

lemma scanDML_no_panic: "scanDML dbo rpo start lines i w \<noteq> Some (Inl e)"
proof (induction lines arbitrary: i w)
  case Nil
  show ?case by simp
next
  case (Cons line rest)
  show ?case
    by (simp add: scanDML_Cons Cons.IH split: option.splits)
qed

lemma scanDML_Some:
  assumes "scanDML dbo rpo start lines i w = Some (Inr (i', w'))"
  shows "config i' = config i \<and> createDatabaseQuery i' = createDatabaseQuery i
    \<and> totalCommands i' = totalCommands i
    \<and> clock w' = clock w \<and> writeFails w' = writeFails w \<and> queries w' = queries w
    \<and> totalInserts i' + failedInserts i' + int (length (batch i')) =
        totalInserts i + failedInserts i + int (length (batch i))
          + int (length (filter isStatement lines))
    \<and> (length (batch i) < batchSize \<longrightarrow> length (batch i') < batchSize)
    \<and> (dbo \<noteq> [] \<longrightarrow> database i' = database i)
    \<and> (rpo \<noteq> [] \<longrightarrow> retentionPolicy i' = retentionPolicy i)"
  using assms
proof (induction lines arbitrary: i w)
  case Nil
  then show ?case by simp
next
  case (Cons line rest)
  let ?i0 = "setContext dbo rpo line i"
  show ?case
  proof (cases "isStatement line")
    case True
    with Cons.prems obtain i3 w3
      where acc: "batchAccumulator line start ?i0 w = Some (i3, w3)"
        and rest: "scanDML dbo rpo start rest i3 w3 = Some (Inr (i', w'))"
      by (auto simp: scanDML_Cons split: option.splits)
    have "0 < batchSize" by (simp add: batchSize_def)
    with batchAccumulator_Some[OF acc] Cons.IH[OF rest] True show ?thesis
      by (auto split: if_splits)
  next
    case False
    with Cons.prems have "scanDML dbo rpo start rest ?i0 w = Some (Inr (i', w'))"
      by (simp add: scanDML_Cons)
    from Cons.IH[OF this] False show ?thesis by auto
  qed
qed

lemma scanDML_writes:
  assumes "scanDML dbo rpo start lines i w = Some (Inr (i', w'))" and "dbo \<noteq> []"
  shows "\<exists>new. writes w' = writes w @ new \<and> (\<forall>c\<in>set new. fst (snd c) = database i)"
  using assms(1)
proof (induction lines arbitrary: i w)
  case Nil
  then show ?case by simp
next
  case (Cons line rest)
  let ?i0 = "setContext dbo rpo line i"
  show ?case
  proof (cases "isStatement line")
    case True
    with Cons.prems obtain i3 w3
      where acc: "batchAccumulator line start ?i0 w = Some (i3, w3)"
        and rest: "scanDML dbo rpo start rest i3 w3 = Some (Inr (i', w'))"
      by (auto simp: scanDML_Cons split: option.splits)
    from Cons.IH[OF rest] obtain new where new: "writes w' = writes w3 @ new"
      "\<forall>c\<in>set new. fst (snd c) = database i3" by blast
    from batchAccumulator_Some[OF acc] assms(2)
    have db: "database i3 = database i"
      and "\<exists>mid. writes w3 = writes w @ mid \<and> (\<forall>c\<in>set mid. fst (snd c) = database i)"
      by (auto split: if_splits)
    then obtain mid where "writes w3 = writes w @ mid" "\<forall>c\<in>set mid. fst (snd c) = database i"
      by blast
    with new db have "writes w' = writes w @ (mid @ new)"
      "\<forall>c\<in>set (mid @ new). fst (snd c) = database i" by auto
    then show ?thesis by blast
  next
    case False
    with Cons.prems have "scanDML dbo rpo start rest ?i0 w = Some (Inr (i', w'))"
      by (simp add: scanDML_Cons)
    from Cons.IH[OF this] assms(2) show ?thesis by simp
  qed
qed

lemma clock_grows: "clockAdvances w \<Longrightarrow> clock w m + int k \<le> clock w (m + k)"
proof (induction k)
  case 0
  show ?case by simp
next
  case (Suc k)
  then have "clock w (m + k) < clock w (Suc (m + k))"
    by (simp add: clockAdvances_def)
  with Suc show ?case by simp
qed

lemma overLimit_eventually:
  assumes "0 \<le> PPS (config i)" and "clockAdvances w"
  shows "\<exists>k. \<not> overLimit i (clock w (reads w + k))"
proof (cases "PPS (config i) = 0")
  case True
  then show ?thesis by (simp add: overLimit_def)
next
  case False
  with assms(1) have pos: "0 < PPS (config i)" by simp
  define n where "n = throttlePointsWritten i + int (length (batch i))"
  define K where "K = nat n"
  have nK: "n \<le> 2 ^ K"
  proof (cases "0 \<le> n")
    case True
    have "int (nat n) < 2 ^ nat n" by (rule of_nat_less_two_power)
    with True show ?thesis by (simp add: K_def)
  next
    case False
    then have "n \<le> 0" by simp
    also have "(0::int) \<le> 2 ^ K" by simp
    finally show ?thesis .
  qed
  define B :: int where "B = 2 ^ Suc K * 1000000000"
  define k where "k = nat (B + lastWrite i - clock w (reads w))"
  define since where "since = clock w (reads w + k) - lastWrite i"
  have "clock w (reads w) + int k \<le> clock w (reads w + k)"
    using assms(2) by (rule clock_grows)
  moreover have "B + lastWrite i - clock w (reads w) \<le> int k"
    by (simp add: k_def)
  ultimately have "B \<le> since"
    unfolding since_def by linarith
  then have "2 ^ Suc K * 1000000000 \<le> since" by (simp only: B_def)
  with nK have "currentPPS n since \<le> 0"
    by (rule currentPPS_settles)
  with pos have "\<not> overLimit i (clock w (reads w + k))"
    by (simp add: overLimit_def n_def since_def)
  then show ?thesis ..
qed

lemma batchWrite_total:
  assumes "0 \<le> PPS (config i)" and "clockAdvances w"
  shows "\<exists>i' w'. batchWrite i w = Some (i', w')"
proof -
  from overLimit_eventually[OF assms] obtain k where "\<not> overLimit i (clock w (reads w + k))" ..
  from batchWrite_returns[OF this] show ?thesis by auto
qed

lemma batchAccumulator_total:
  assumes "0 \<le> PPS (config i)" and "clockAdvances w"
  shows "\<exists>i' w'. batchAccumulator line start i w = Some (i', w')"
proof -
  from assms have "\<exists>i' w'. batchWrite (i\<lparr>batch := batch i @ [line]\<rparr>) w = Some (i', w')"
    by (intro batchWrite_total) simp_all
  then show ?thesis
    by (auto simp: batchAccumulator_def Let_def)
qed

lemma scanDML_total:
  assumes "0 \<le> PPS (config i)" and "clockAdvances w"
  shows "\<exists>i' w'. scanDML dbo rpo start lines i w = Some (Inr (i', w'))"
  using assms
proof (induction lines arbitrary: i w)
  case Nil
  show ?case by simp
next
  case (Cons line rest)
  let ?i0 = "setContext dbo rpo line i"
  show ?case
  proof (cases "isStatement line")
    case True
    from Cons.prems obtain i3 w3 where acc: "batchAccumulator line start ?i0 w = Some (i3, w3)"
      using batchAccumulator_total[of ?i0 w line start] by auto
    from batchAccumulator_Some[OF acc] Cons.prems
    have "0 \<le> PPS (config i3)" "clockAdvances w3"
      by (simp_all add: clockAdvances_def)
    from Cons.IH[OF this] acc True show ?thesis
      by (simp add: scanDML_Cons)
  next
    case False
    from Cons.prems have "0 \<le> PPS (config ?i0)" "clockAdvances w" by simp_all
    from Cons.IH[OF this] False show ?thesis
      by (simp add: scanDML_Cons)
  qed
qed

subsection \<open>Phase 2 as a whole\<close>

lemma processDML_eq:
  "processDML lines dbo rpo i w =
     (case scanDML dbo rpo (clock w (reads w)) lines (overrides dbo rpo i) (started dbo i w) of
        None \<Rightarrow> None
      | Some (Inl e) \<Rightarrow> Some (Inl e)
      | Some (Inr (i4, w4)) \<Rightarrow> map_option Inr (batchWrite i4 w4))"
  by (simp add: processDML_def queryExecutor_def execute_def Now_def overrides_def started_def
      Let_def)

lemma overrides_fields [simp]:
  "config (overrides dbo rpo i) = config i"
  "batch (overrides dbo rpo i) = batch i"
  "totalInserts (overrides dbo rpo i) = totalInserts i"
  "failedInserts (overrides dbo rpo i) = failedInserts i"
  "totalCommands (overrides dbo rpo i) = totalCommands i + 1"
  "throttlePointsWritten (overrides dbo rpo i) = throttlePointsWritten i"
  "lastWrite (overrides dbo rpo i) = lastWrite i"
  "createDatabaseQuery (overrides dbo rpo i) =
     (if dbo \<noteq> [] then ''CREATE DATABASE '' @ dbo else createDatabaseQuery i)"
  "database (overrides dbo rpo i) = (if dbo \<noteq> [] then dbo else database i)"
  "retentionPolicy (overrides dbo rpo i) = (if rpo \<noteq> [] then rpo else retentionPolicy i)"
  by (simp_all add: overrides_def Let_def)

lemma started_fields [simp]:
  "clock (started dbo i w) = clock w"
  "reads (started dbo i w) = Suc (reads w)"
  "writeFails (started dbo i w) = writeFails w"
  "writes (started dbo i w) = writes w"
  "stdout (started dbo i w) = stdout w"
  "ticks (started dbo i w) = ticks w"
  "queries (started dbo i w) = queries w @
          [if dbo \<noteq> [] then (''CREATE DATABASE '' @ dbo, dbo)
           else (createDatabaseQuery i, database i)]"
  by (simp_all add: started_def)

lemma processDML_Some:
  assumes "processDML lines dbo rpo i w = Some (Inr (i', w'))"
  obtains i4 w4 where
    "scanDML dbo rpo (clock w (reads w)) lines (overrides dbo rpo i) (started dbo i w)
       = Some (Inr (i4, w4))"
    and "batchWrite i4 w4 = Some (i', w')"
  using assms
  by (auto simp: processDML_eq split: option.splits sum.splits)

lemma processDML_total:
  assumes "0 \<le> PPS (config i)" and "clockAdvances w"
  shows "\<exists>i' w'. processDML lines dbo rpo i w = Some (Inr (i', w'))"
proof -
  from assms have "0 \<le> PPS (config (overrides dbo rpo i))" "clockAdvances (started dbo i w)"
    by (simp_all add: clockAdvances_def)
  from scanDML_total[OF this] obtain i4 w4 where
    scan: "scanDML dbo rpo (clock w (reads w)) lines (overrides dbo rpo i) (started dbo i w)
       = Some (Inr (i4, w4))" by blast
  from scanDML_Some[OF scan] assms have "0 \<le> PPS (config i4)" "clockAdvances w4"
    by (simp_all add: clockAdvances_def)
  from batchWrite_total[OF this] obtain i' w' where "batchWrite i4 w4 = Some (i', w')" by blast
  with scan show ?thesis by (simp add: processDML_eq)
qed

lemma processDML_counts:
  assumes "processDML lines dbo rpo i w = Some (Inr (i', w'))"
  shows "totalInserts i' + failedInserts i' =
           totalInserts i + failedInserts i + int (length (batch i))
             + int (length (filter isStatement lines))"
proof -
  from assms obtain i4 w4 where
    scan: "scanDML dbo rpo (clock w (reads w)) lines (overrides dbo rpo i) (started dbo i w)
       = Some (Inr (i4, w4))"
    and bw: "batchWrite i4 w4 = Some (i', w')"
    by (rule processDML_Some)
  from bw obtain k where "i' = fst (flushNow i4 (waited w4 k))"
    by (rule batchWrite_result)
  with scanDML_Some[OF scan] show ?thesis by simp
qed

lemma clockAdvances_exampleWorld: "clockAdvances exampleWorld"
  by (simp add: clockAdvances_def exampleWorld_def)

subsection \<open>The rate\<close>

lemma overLimit_rateAt:
  "overLimit i now \<longleftrightarrow> PPS (config i) \<noteq> 0 \<and> PPS (config i) < rateAt i now"
  by (auto simp: overLimit_def rateAt_def)

text \<open>
  Rates of the examples. In the last two the quotient rounded to \<^verbatim>\<open>float64\<close> falls just
  below the integer that exact division gives (3125 and 3906250).
\<close>

lemma currentPPS_examples:
  "currentPPS 2 0 = 2"
  "currentPPS 2 1000000000 = 2"
  "currentPPS 2 2000000000 = 1"
  "currentPPS 1 320000 = 3124"
  "currentPPS 5000 1280000 = 3906249"
  by code_simp+

lemma exampleImporter_rates:
  "rateAt exampleImporter (clock exampleWorld 0) = 2"
  "rateAt exampleImporter (clock exampleWorld 1) = 2"
  "rateAt exampleImporter (clock exampleWorld 2) = 1"
  by (simp_all add: rateAt_def exampleImporter_def NewImporter_def exampleWorld_def
      currentPPS_examples)

lemma batchWrite_example:
  "batchWrite exampleImporter exampleWorld = Some (flushNow exampleImporter (waited exampleWorld 2))"
proof (rule batchWrite_eq)
  note defs = overLimit_def exampleImporter_def NewImporter_def exampleWorld_def
    exampleConfig_def currentPPS_examples
  show "\<not> overLimit exampleImporter (clock exampleWorld (reads exampleWorld + 2))"
    by (simp add: defs)
  show "\<forall>j<2. overLimit exampleImporter (clock exampleWorld (reads exampleWorld + j))"
  proof (intro allI impI)
    fix j :: nat assume "j < 2"
    then have "j = 0 \<or> j = 1" by auto
    then show "overLimit exampleImporter (clock exampleWorld (reads exampleWorld + j))"
      by (auto simp: defs)
  qed
qed

lemma clockAdvances_failingWorld: "clockAdvances failingWorld"
  by (simp add: clockAdvances_def failingWorld_def exampleWorld_def)

lemma batchWrite_failing:
  "batchWrite ((NewImporter exampleConfig)\<lparr>batch := [''a 1'', ''b 2'', ''c 3'']\<rparr>) failingWorld
     = Some (flushNow ((NewImporter exampleConfig)\<lparr>batch := [''a 1'', ''b 2'', ''c 3'']\<rparr>)
               failingWorld)"
  by (rule batchWrite_write) (simp add: overLimit_def NewImporter_def exampleConfig_def)

subsection \<open>Evaluation of runs on the example inputs\<close>

lemmas run_eval = processDML_eq scanDML_Cons isStatement_def setContext_def batchAccumulator_def
  batchWrite_write overLimit_def NewImporter_def exampleConfig_def exampleWorld_def
  batchSize_def Let_def trim_eval

subsection \<open>Phase 1 and the orchestrator\<close>

lemma processDDL_eq:
  "processDDL lines i =
     (drop (Suc (length (beforeMarker lines))) lines,
      if filter isStatement (beforeMarker lines) = [] then i
      else i\<lparr>createDatabaseQuery := last (filter isStatement (beforeMarker lines))\<rparr>)"
  by (induction lines arbitrary: i)
    (auto simp: beforeMarker_def isStatement_def dest: DML_is_comment)

lemma processDDL_config [simp]: "config (snd (processDDL lines i)) = config i"
  by (simp add: processDDL_eq)

lemma Import_eq:
  assumes "newClientErr env = None" and "\<not> pingFails env" and "Path (config i) \<noteq> []"
    and "openFile env (Path (config i)) = Inr f"
    and "Compressed (config i) \<longrightarrow> gzipErr f = None"
    and "scanErr f = None"
  shows "Import env i w =
     (case processDML (fst (processDDL (fileLines f) i)) (DestinationDatabase (config i))
             (RetentionPolicy (config i))
             ((snd (processDDL (fileLines f) i))\<lparr>lastWrite := clock w (reads w)\<rparr>)
             (w\<lparr>reads := Suc (reads w)\<rparr>) of
        None \<Rightarrow> None
      | Some (Inl e) \<Rightarrow> Some (Inl e)
      | Some (Inr (i3, w3)) \<Rightarrow>
          Some (Inr (if 0 < failedInserts i3 then Some (notInserted (failedInserts i3)) else None,
                     i3, w3)))"
proof -
  obtain rest i1 where ddl: "processDDL (fileLines f) i = (rest, i1)"
    by (cases "processDDL (fileLines f) i")
  then have "config i1 = config i"
    using processDDL_config[of "fileLines f" i] by simp
  with assms ddl show ?thesis
    by (auto simp: Import_def Now_def Let_def split: option.splits sum.splits)
qed

lemma notInserted_one: "notInserted 1 = ''1 point was not inserted''"
  by (simp add: notInserted_def itoa_def digits.simps)

lemma notInserted_many: "1 < n \<Longrightarrow> notInserted n = itoa n @ '' points were not inserted''"
  by (simp add: notInserted_def)

lemmas import_eval = Import_def exampleEnvironment_def processDDL.simps exampleLines_def
  failingWorld_def Now_def run_eval

section \<open>The claims\<close>

text \<open>
  C8. Phase 1 returns the lines after the first line that starts with \<open># DML\<close> (that line
  is consumed), and the schema command is the last line before it that is neither a
  comment nor blank; with no such line the command stays as it was. When no line starts
  with the marker, phase 1 returns normally with no line left and the command captured
  the same way.
\<close>

theorem processDDL_schema_command:
  "processDDL lines i =
     (drop (Suc (length (beforeMarker lines))) lines,
      if filter isStatement (beforeMarker lines) = [] then i
      else i\<lparr>createDatabaseQuery := last (filter isStatement (beforeMarker lines))\<rparr>)
   \<and> (HasPrefix m ''# DML'' \<and> (\<forall>l\<in>set pre. \<not> HasPrefix l ''# DML'')
        \<longrightarrow> fst (processDDL (pre @ m # rest) i) = rest)
   \<and> ((\<forall>l\<in>set lines. \<not> HasPrefix l ''# DML'') \<longrightarrow> fst (processDDL lines i) = [])"
proof -
  note eq = processDDL_eq
  have "beforeMarker (pre @ m # rest) = pre"
    if "HasPrefix m ''# DML''" "\<forall>l\<in>set pre. \<not> HasPrefix l ''# DML''"
    using that by (simp add: beforeMarker_def)
  moreover have "beforeMarker lines = lines" if "\<forall>l\<in>set lines. \<not> HasPrefix l ''# DML''"
    using that by (simp add: beforeMarker_def)
  ultimately show ?thesis by (simp add: eq)
qed

theorem processDDL_schema_command_witness:
  "processDDL exampleLines (NewImporter exampleConfig) =
     ([''# CONTEXT-DATABASE: foo'', ''m,t=1 v=1 0''],
      (NewImporter exampleConfig)\<lparr>createDatabaseQuery := ''CREATE DATABASE foo''\<rparr>)
   \<and> fst (processDDL ([''CREATE DATABASE a'', ''CREATE DATABASE b''] @ ''# DML'' # [''m v=1''])
            (NewImporter exampleConfig)) = [''m v=1'']
   \<and> fst (processDDL [''CREATE DATABASE a''] (NewImporter exampleConfig)) = []"
  using processDDL_schema_command [of exampleLines "NewImporter exampleConfig" "''# DML''" 
          "[''CREATE DATABASE a'', ''CREATE DATABASE b'']" "[''m v=1'']"]
        processDDL_schema_command [of "[''CREATE DATABASE a'']" "NewImporter exampleConfig" "''# DML''" 
          "[''CREATE DATABASE a'', ''CREATE DATABASE b'']" "[''m v=1'']"]
  by (simp add: exampleLines_def beforeMarker_def isStatement_def trim_eval)

text \<open>
  C10. For a line that starts with \<open># CONTEXT-DATABASE:\<close> or with
  \<open># CONTEXT-RETENTION-POLICY:\<close>, the split at the colons has at least two fields, so the
  read of field 1 is in range: neither context check panics, and neither does the step
  of the scan on that line.
\<close>

theorem context_index_in_bounds:
  assumes "HasPrefix line ''# CONTEXT-DATABASE:'' \<or> HasPrefix line ''# CONTEXT-RETENTION-POLICY:''"
  shows "1 < length (Split line CHR '':'')
    \<and> index (Split line CHR '':'') 1 = Inr (Split line CHR '':'' ! 1)
    \<and> contextDatabase dbo line i \<noteq> Inl e \<and> contextRetentionPolicy rpo line i \<noteq> Inl e
    \<and> scanDML dbo rpo start (line # rest) i w \<noteq> Some (Inl e)"
  using Split_context[OF assms]
  by (simp add: index_def contextDatabase_eq contextRetentionPolicy_eq scanDML_no_panic)

theorem context_index_in_bounds_witness:
  "HasPrefix ''# CONTEXT-DATABASE:'' ''# CONTEXT-DATABASE:''
   \<and> Split ''# CONTEXT-DATABASE:'' CHR '':'' = [''# CONTEXT-DATABASE'', []]
   \<and> index (Split ''# CONTEXT-DATABASE:'' CHR '':'') 1 = Inr []"
  using context_index_in_bounds [of "''# CONTEXT-DATABASE:''"]
  by simp

text \<open>
  C6. The claim takes the target database to be all of the line after the first colon,
  trimmed. The code takes field 1 of the split at every colon: for the line
  \<open># CONTEXT-DATABASE: a:b\<close> it sets the database to \<open>a\<close>, not to \<open>a:b\<close>.
\<close>

theorem context_database_second_colon:
  "contextDatabase [] ''# CONTEXT-DATABASE: a:b'' (NewImporter exampleConfig) =
     Inr ((NewImporter exampleConfig)\<lparr>database := ''a''\<rparr>)
   \<and> map_option (map_sum id (map (fst \<circ> snd) \<circ> writes \<circ> snd))
       (processDML [''# CONTEXT-DATABASE: a:b'', ''m v=1''] [] []
          (NewImporter exampleConfig) exampleWorld)
     = Some (Inr [''a''])"
  by (simp add: contextDatabase_def index_def run_eval)

text \<open>
  C1. Phase 2 run on a fresh importer (empty batch, both counters zero): whenever the run
  returns, \<open>totalInserts + failedInserts\<close> is the number of data lines of the stream, the
  lines that are neither comments nor blank. The run does return when the limit is not
  negative and the clock advances.
\<close>

theorem data_lines_counted:
  assumes "batch i = []" and "totalInserts i = 0" and "failedInserts i = 0"
  shows "(\<forall>i' w'. processDML lines dbo rpo i w = Some (Inr (i', w')) \<longrightarrow>
            totalInserts i' + failedInserts i' = int (length (filter isStatement lines)))
    \<and> (0 \<le> PPS (config i) \<and> clockAdvances w \<longrightarrow>
         (\<exists>i' w'. processDML lines dbo rpo i w = Some (Inr (i', w'))))"
  using assms processDML_counts[of lines dbo rpo i w] processDML_total[of i w lines dbo rpo]
  by simp

theorem data_lines_counted_witness:
  "\<exists>i' w'. processDML (drop 3 exampleLines) [] [] (NewImporter exampleConfig) exampleWorld
              = Some (Inr (i', w'))
          \<and> totalInserts i' + failedInserts i' = 1"
proof -
  have "batch (NewImporter exampleConfig) = []" "totalInserts (NewImporter exampleConfig) = 0"
    "failedInserts (NewImporter exampleConfig) = 0"
    by (simp_all add: NewImporter_def)
  note counted = data_lines_counted[OF this, of "drop 3 exampleLines" "[]" "[]" exampleWorld]
  have "0 \<le> PPS (config (NewImporter exampleConfig)) \<and> clockAdvances exampleWorld"
    by (simp add: NewImporter_def exampleConfig_def clockAdvances_exampleWorld)
  with counted obtain i' w' where
    run: "processDML (drop 3 exampleLines) [] [] (NewImporter exampleConfig) exampleWorld
            = Some (Inr (i', w'))"
    by blast
  with counted have "totalInserts i' + failedInserts i'
      = int (length (filter isStatement (drop 3 exampleLines)))"
    by blast
  also have "\<dots> = 1"
    by (simp add: exampleLines_def isStatement_def trim_eval)
  finally show ?thesis using run by blast
qed

text \<open>
  C9. Whenever a flush returns, whatever the result of the write and however many waits
  came before it, \<open>throttlePointsWritten\<close> is zero and \<open>lastWrite\<close> is the latest reading
  of the clock. The flush does return when the limit is not negative and the clock
  advances.
\<close>

theorem rate_window_reset:
  "(\<forall>i' w'. batchWrite i w = Some (i', w') \<longrightarrow>
      throttlePointsWritten i' = 0 \<and> clock w' = clock w \<and> reads w < reads w'
      \<and> lastWrite i' = clock w' (reads w' - 1))
   \<and> (0 \<le> PPS (config i) \<and> clockAdvances w \<longrightarrow> (\<exists>i' w'. batchWrite i w = Some (i', w')))"
proof -
  have "throttlePointsWritten i' = 0 \<and> clock w' = clock w \<and> reads w < reads w'
      \<and> lastWrite i' = clock w' (reads w' - 1)"
    if "batchWrite i w = Some (i', w')" for i' w'
  proof -
    from that obtain k
      where "i' = fst (flushNow i (waited w k))" "w' = snd (flushNow i (waited w k))"
      by (rule batchWrite_result)
    then show ?thesis by simp
  qed
  moreover have "\<exists>i' w'. batchWrite i w = Some (i', w')"
    if "0 \<le> PPS (config i) \<and> clockAdvances w"
    using that by (simp add: batchWrite_total)
  ultimately show ?thesis by blast
qed

theorem rate_window_reset_witness:
  "\<exists>i' w'. batchWrite exampleImporter exampleWorld = Some (i', w')
     \<and> throttlePointsWritten i' = 0 \<and> reads w' = 4 \<and> lastWrite i' = 3000000000"
proof -
  obtain i' w' where run: "batchWrite exampleImporter exampleWorld = Some (i', w')"
    and w': "w' = snd (flushNow exampleImporter (waited exampleWorld 2))"
    using batchWrite_example by (cases "flushNow exampleImporter (waited exampleWorld 2)") simp
  from w' have "reads w' = 4" "clock w' 3 = 3000000000"
    by (simp_all add: exampleWorld_def)
  with rate_window_reset[of exampleImporter exampleWorld] run
  have "throttlePointsWritten i' = 0 \<and> reads w' = 4 \<and> lastWrite i' = 3000000000"
    by simp
  with run show ?thesis by blast
qed

text \<open>
  C3. Whenever a flush returns, it has made one transport write, of the whole batch joined
  by newlines. When that write fails, \<open>failedInserts\<close> grows by the length of the batch,
  \<open>totalInserts\<close> stays, and the joined batch and a newline are printed to standard
  output; when it succeeds, \<open>totalInserts\<close> grows by the length of the batch and nothing
  is printed. The scan goes on after a failure: whatever writes fail, phase 2 returns
  (limit not negative, clock advancing) with every line of the batch and of the stream
  counted.
\<close>

theorem write_result_bookkeeping:
  "(\<forall>i' w'. batchWrite i w = Some (i', w') \<longrightarrow>
      writes w' = writes w @ [(Join (batch i) [CHR 0x0A], database i, retentionPolicy i,
                               Precision (config i), WriteConsistency (config i))]
      \<and> batch i' = batch i
      \<and> (if writeFails w (length (writes w))
          then failedInserts i' = failedInserts i + int (length (batch i))
             \<and> totalInserts i' = totalInserts i
             \<and> stdout w' = stdout w @ Join (batch i) [CHR 0x0A] @ [CHR 0x0A]
          else totalInserts i' = totalInserts i + int (length (batch i))
             \<and> failedInserts i' = failedInserts i
             \<and> stdout w' = stdout w))
   \<and> (0 \<le> PPS (config i) \<and> clockAdvances w \<longrightarrow>
        (\<exists>i' w'. processDML lines dbo rpo i w = Some (Inr (i', w'))
           \<and> totalInserts i' + failedInserts i' =
               totalInserts i + failedInserts i + int (length (batch i))
                 + int (length (filter isStatement lines))))"
proof -
  have "writes w' = writes w @ [(Join (batch i) [CHR 0x0A], database i, retentionPolicy i,
                               Precision (config i), WriteConsistency (config i))]
      \<and> batch i' = batch i
      \<and> (if writeFails w (length (writes w))
          then failedInserts i' = failedInserts i + int (length (batch i))
             \<and> totalInserts i' = totalInserts i
             \<and> stdout w' = stdout w @ Join (batch i) [CHR 0x0A] @ [CHR 0x0A]
          else totalInserts i' = totalInserts i + int (length (batch i))
             \<and> failedInserts i' = failedInserts i
             \<and> stdout w' = stdout w)"
    if "batchWrite i w = Some (i', w')" for i' w'
  proof -
    from that obtain k
      where "i' = fst (flushNow i (waited w k))" "w' = snd (flushNow i (waited w k))"
      by (rule batchWrite_result)
    then show ?thesis by simp
  qed
  moreover have "\<exists>i' w'. processDML lines dbo rpo i w = Some (Inr (i', w'))
           \<and> totalInserts i' + failedInserts i' =
               totalInserts i + failedInserts i + int (length (batch i))
                 + int (length (filter isStatement lines))"
    if "0 \<le> PPS (config i) \<and> clockAdvances w"
  proof -
    from that obtain i' w' where "processDML lines dbo rpo i w = Some (Inr (i', w'))"
      using processDML_total[of i w lines dbo rpo] by blast
    with processDML_counts[OF this] show ?thesis by blast
  qed
  ultimately show ?thesis by blast
qed

theorem write_result_bookkeeping_witness:
  "(\<exists>i' w'. batchWrite ((NewImporter exampleConfig)\<lparr>batch := [''a 1'', ''b 2'', ''c 3'']\<rparr>)
               failingWorld = Some (i', w')
      \<and> failedInserts i' = 3 \<and> totalInserts i' = 0
      \<and> stdout w' = ''a 1'' @ [CHR 0x0A] @ ''b 2'' @ [CHR 0x0A] @ ''c 3'' @ [CHR 0x0A])
   \<and> (\<exists>i' w'. processDML [''a 1'', ''b 2'', ''c 3''] [] [] (NewImporter exampleConfig) failingWorld
                 = Some (Inr (i', w'))
         \<and> totalInserts i' + failedInserts i' = 3)
   \<and> map_option (map_sum id (\<lambda>r. (failedInserts (fst r), totalInserts (fst r),
          length (writes (snd r)))))
       (processDML [''m v=2'', ''m v=3''] [] []
          ((NewImporter exampleConfig)\<lparr>batch := replicate 4999 ''m v=1''\<rparr>)
          (exampleWorld\<lparr>writeFails := (\<lambda>n. n = 0)\<rparr>))
     = Some (Inr (5000, 1, 2))"
proof -
  let ?i = "(NewImporter exampleConfig)\<lparr>batch := [''a 1'', ''b 2'', ''c 3'']\<rparr>"
  obtain i' w' where run: "batchWrite ?i failingWorld = Some (i', w')"
    using batchWrite_failing by (cases "flushNow ?i failingWorld") simp
  with write_result_bookkeeping[of ?i failingWorld]
  have "failedInserts i' = 3 \<and> totalInserts i' = 0
      \<and> stdout w' = ''a 1'' @ [CHR 0x0A] @ ''b 2'' @ [CHR 0x0A] @ ''c 3'' @ [CHR 0x0A]"
    by (simp add: failingWorld_def exampleWorld_def NewImporter_def)
  with run have first: "\<exists>i' w'. batchWrite ?i failingWorld = Some (i', w')
      \<and> failedInserts i' = 3 \<and> totalInserts i' = 0
      \<and> stdout w' = ''a 1'' @ [CHR 0x0A] @ ''b 2'' @ [CHR 0x0A] @ ''c 3'' @ [CHR 0x0A]"
    by blast
  have "0 \<le> PPS (config (NewImporter exampleConfig)) \<and> clockAdvances failingWorld"
    by (simp add: NewImporter_def exampleConfig_def clockAdvances_failingWorld)
  with write_result_bookkeeping[of "NewImporter exampleConfig" failingWorld
      "[''a 1'', ''b 2'', ''c 3'']" "[]" "[]"]
  have "\<exists>i' w'. processDML [''a 1'', ''b 2'', ''c 3''] [] [] (NewImporter exampleConfig) failingWorld
                 = Some (Inr (i', w'))
         \<and> totalInserts i' + failedInserts i' = 3"
    by (simp add: NewImporter_def isStatement_def trim_eval)
  moreover have "map_option (map_sum id (\<lambda>r. (failedInserts (fst r), totalInserts (fst r),
          length (writes (snd r)))))
       (processDML [''m v=2'', ''m v=3''] [] []
          ((NewImporter exampleConfig)\<lparr>batch := replicate 4999 ''m v=1''\<rparr>)
          (exampleWorld\<lparr>writeFails := (\<lambda>n. n = 0)\<rparr>))
     = Some (Inr (5000, 1, 2))"
    by (simp add: run_eval case_prod_beta)
  ultimately show ?thesis using first by blast
qed

text \<open>
  C2. Whenever a flush returns, it has waited one tick for each reading of the clock at
  which the limit was set and the rate over it, and has made its one write at the first
  reading at which the limit was zero or the rate within it. The rate is the accumulated
  count when no time has elapsed; otherwise it is the count divided by the elapsed
  seconds, the division being that of \<^verbatim>\<open>float64\<close> and its result truncated to an
  integer: for a count that is not negative, it lies within the stated rounding factors
  of the exact quotient, truncated. With a positive limit and a rate over it, the flush
  is the flush retried after one tick, with the batch length taken out of the count
  again; with a zero limit or a rate within the limit, the write is made at once, with
  no tick.
\<close>

theorem flush_waits_for_rate:
  "(\<forall>i' w'. batchWrite i w = Some (i', w') \<longrightarrow>
      (\<exists>k. (\<forall>j<k. PPS (config i) \<noteq> 0 \<and> PPS (config i) < rateAt i (clock w (reads w + j)))
         \<and> (PPS (config i) = 0 \<or> rateAt i (clock w (reads w + k)) \<le> PPS (config i))
         \<and> ticks w' = ticks w + k
         \<and> writes w' = writes w @ [(Join (batch i) [CHR 0x0A], database i, retentionPolicy i,
                                     Precision (config i), WriteConsistency (config i))]))
   \<and> rateAt i now =
       currentPPS (throttlePointsWritten i + int (length (batch i))) (now - lastWrite i)
   \<and> (since \<le> 0 \<longrightarrow> currentPPS n since = n)
   \<and> (0 < since \<longrightarrow>
        currentPPS n since = toInt (f64 (f64 (real_of_int n) / Seconds since)))
   \<and> (0 < since \<and> 0 \<le> n \<longrightarrow>
        real_of_int (currentPPS n since)
          \<le> (1 + 1 / 2 ^ 53) ^ 2 / (1 - 1 / 2 ^ 53) ^ 3
               * (real_of_int n / (real_of_int since / 1000000000))
        \<and> (1 - 1 / 2 ^ 53) ^ 2 / (1 + 1 / 2 ^ 53) ^ 3
               * (real_of_int n / (real_of_int since / 1000000000))
          < real_of_int (currentPPS n since) + 1)
   \<and> (0 < PPS (config i) \<and> PPS (config i) < rateAt i (clock w (reads w)) \<longrightarrow>
        batchWrite i w =
          batchWrite
            (i\<lparr>throttlePointsWritten :=
                 throttlePointsWritten i + int (length (batch i)) - int (length (batch i))\<rparr>)
            (w\<lparr>reads := Suc (reads w), ticks := Suc (ticks w)\<rparr>))
   \<and> (PPS (config i) = 0 \<or> rateAt i (clock w (reads w)) \<le> PPS (config i) \<longrightarrow>
        batchWrite i w = Some (flushNow i w)
        \<and> ticks (snd (flushNow i w)) = ticks w
        \<and> writes (snd (flushNow i w)) =
            writes w @ [(Join (batch i) [CHR 0x0A], database i, retentionPolicy i,
                         Precision (config i), WriteConsistency (config i))])"
proof -
  have a: "\<exists>k. (\<forall>j<k. PPS (config i) \<noteq> 0 \<and> PPS (config i) < rateAt i (clock w (reads w + j)))
         \<and> (PPS (config i) = 0 \<or> rateAt i (clock w (reads w + k)) \<le> PPS (config i))
         \<and> ticks w' = ticks w + k
         \<and> writes w' = writes w @ [(Join (batch i) [CHR 0x0A], database i, retentionPolicy i,
                                     Precision (config i), WriteConsistency (config i))]"
    if "batchWrite i w = Some (i', w')" for i' w'
  proof -
    from that obtain k where k: "\<forall>j<k. overLimit i (clock w (reads w + j))"
      "\<not> overLimit i (clock w (reads w + k))"
      and r: "i' = fst (flushNow i (waited w k))" "w' = snd (flushNow i (waited w k))"
      by (rule batchWrite_result)
    from k have "\<forall>j<k. PPS (config i) \<noteq> 0 \<and> PPS (config i) < rateAt i (clock w (reads w + j))"
      "PPS (config i) = 0 \<or> rateAt i (clock w (reads w + k)) \<le> PPS (config i)"
      by (auto simp: overLimit_rateAt)
    moreover from r have "ticks w' = ticks w + k"
      "writes w' = writes w @ [(Join (batch i) [CHR 0x0A], database i, retentionPolicy i,
                                     Precision (config i), WriteConsistency (config i))]"
      by simp_all
    ultimately show ?thesis by blast
  qed
  have r: "rateAt i now =
       currentPPS (throttlePointsWritten i + int (length (batch i))) (now - lastWrite i)"
    by (simp add: rateAt_def)
  have b: "currentPPS n since = n" if "since \<le> 0"
    using that by (rule currentPPS_no_elapsed)
  have c: "currentPPS n since = toInt (f64 (f64 (real_of_int n) / Seconds since))"
    if "0 < since"
    using that by (rule currentPPS_elapsed)
  have c': "real_of_int (currentPPS n since)
          \<le> (1 + 1 / 2 ^ 53) ^ 2 / (1 - 1 / 2 ^ 53) ^ 3
               * (real_of_int n / (real_of_int since / 1000000000))
        \<and> (1 - 1 / 2 ^ 53) ^ 2 / (1 + 1 / 2 ^ 53) ^ 3
               * (real_of_int n / (real_of_int since / 1000000000))
          < real_of_int (currentPPS n since) + 1"
    if "0 < since \<and> 0 \<le> n"
    using that currentPPS_accuracy[of since n] by blast
  have d: "batchWrite i w =
          batchWrite
            (i\<lparr>throttlePointsWritten :=
                 throttlePointsWritten i + int (length (batch i)) - int (length (batch i))\<rparr>)
            (w\<lparr>reads := Suc (reads w), ticks := Suc (ticks w)\<rparr>)"
    if "0 < PPS (config i) \<and> PPS (config i) < rateAt i (clock w (reads w))"
  proof -
    from that have "overLimit i (clock w (reads w))" by (simp add: overLimit_rateAt)
    then have "batchWrite i w = batchWrite i (waited w 1)" by (rule batchWrite_retry)
    then show ?thesis by (simp add: waited_def)
  qed
  have e: "batchWrite i w = Some (flushNow i w)
        \<and> ticks (snd (flushNow i w)) = ticks w
        \<and> writes (snd (flushNow i w)) =
            writes w @ [(Join (batch i) [CHR 0x0A], database i, retentionPolicy i,
                         Precision (config i), WriteConsistency (config i))]"
    if "PPS (config i) = 0 \<or> rateAt i (clock w (reads w)) \<le> PPS (config i)"
  proof -
    from that have "\<not> overLimit i (clock w (reads w))" by (auto simp: overLimit_rateAt)
    then have "batchWrite i w = Some (flushNow i w)" by (rule batchWrite_write)
    then show ?thesis by simp
  qed
  from a have a': "\<forall>i' w'. batchWrite i w = Some (i', w') \<longrightarrow>
      (\<exists>k. (\<forall>j<k. PPS (config i) \<noteq> 0 \<and> PPS (config i) < rateAt i (clock w (reads w + j)))
         \<and> (PPS (config i) = 0 \<or> rateAt i (clock w (reads w + k)) \<le> PPS (config i))
         \<and> ticks w' = ticks w + k
         \<and> writes w' = writes w @ [(Join (batch i) [CHR 0x0A], database i, retentionPolicy i,
                                     Precision (config i), WriteConsistency (config i))])"
    by blast
  from a' r b c c' d e show ?thesis by blast
qed

theorem flush_waits_for_rate_witness:
  "(\<exists>i' w'. batchWrite exampleImporter exampleWorld = Some (i', w')
      \<and> ticks w' = 2 \<and> length (writes w') = 1)
   \<and> currentPPS 2 0 = 2
   \<and> toInt (f64 (f64 (real_of_int 2) / Seconds 2000000000)) = 1
   \<and> toInt (f64 (f64 (real_of_int 1) / Seconds 320000)) = 3124
   \<and> real_of_int 3124
        \<le> (1 + 1 / 2 ^ 53) ^ 2 / (1 - 1 / 2 ^ 53) ^ 3
             * (real_of_int 1 / (real_of_int 320000 / 1000000000))
   \<and> (1 - 1 / 2 ^ 53) ^ 2 / (1 + 1 / 2 ^ 53) ^ 3
             * (real_of_int 1 / (real_of_int 320000 / 1000000000))
        < real_of_int 3124 + 1
   \<and> batchWrite exampleImporter exampleWorld =
       batchWrite exampleImporter (exampleWorld\<lparr>reads := 1, ticks := 1\<rparr>)
   \<and> batchWrite exampleImporter (exampleWorld\<lparr>reads := 2, ticks := 2\<rparr>) =
       Some (flushNow exampleImporter (exampleWorld\<lparr>reads := 2, ticks := 2\<rparr>))
   \<and> batchWrite ((NewImporter (exampleConfig\<lparr>PPS := 3124\<rparr>))\<lparr>batch := [''m v=1'']\<rparr>)
         (exampleWorld\<lparr>clock := (\<lambda>n. 320000 + int n * 1000)\<rparr>) =
       Some (flushNow ((NewImporter (exampleConfig\<lparr>PPS := 3124\<rparr>))\<lparr>batch := [''m v=1'']\<rparr>)
               (exampleWorld\<lparr>clock := (\<lambda>n. 320000 + int n * 1000)\<rparr>))"
proof -
  note th = flush_waits_for_rate
  obtain i' w' where run: "batchWrite exampleImporter exampleWorld = Some (i', w')"
    and w': "w' = snd (flushNow exampleImporter (waited exampleWorld 2))"
    using batchWrite_example by (cases "flushNow exampleImporter (waited exampleWorld 2)") simp
  from w' have "ticks w' = 2 \<and> length (writes w') = 1"
    by (simp add: exampleWorld_def)
  with run have first: "\<exists>i' w'. batchWrite exampleImporter exampleWorld = Some (i', w')
      \<and> ticks w' = 2 \<and> length (writes w') = 1" by blast
  have second: "currentPPS 2 0 = 2"
    using th[where since = 0 and n = 2] by simp
  have "currentPPS 2 2000000000 = toInt (f64 (f64 (real_of_int 2) / Seconds 2000000000))"
    using th[where since = 2000000000 and n = 2] by simp
  then have third: "toInt (f64 (f64 (real_of_int 2) / Seconds 2000000000)) = 1"
    by (simp only: currentPPS_examples)
  have "(0::int) < 320000 \<and> (0::int) \<le> 1" by simp
  with th[where since = 320000 and n = 1]
  have "currentPPS 1 320000 = toInt (f64 (f64 (real_of_int 1) / Seconds 320000))"
    and acc: "real_of_int (currentPPS 1 320000)
        \<le> (1 + 1 / 2 ^ 53) ^ 2 / (1 - 1 / 2 ^ 53) ^ 3
             * (real_of_int 1 / (real_of_int 320000 / 1000000000))"
      "(1 - 1 / 2 ^ 53) ^ 2 / (1 + 1 / 2 ^ 53) ^ 3
             * (real_of_int 1 / (real_of_int 320000 / 1000000000))
        < real_of_int (currentPPS 1 320000) + 1"
    by blast+
  then have float: "toInt (f64 (f64 (real_of_int 1) / Seconds 320000)) = 3124"
    by (simp only: currentPPS_examples)
  from acc have bounds: "real_of_int 3124
        \<le> (1 + 1 / 2 ^ 53) ^ 2 / (1 - 1 / 2 ^ 53) ^ 3
             * (real_of_int 1 / (real_of_int 320000 / 1000000000))"
    "(1 - 1 / 2 ^ 53) ^ 2 / (1 + 1 / 2 ^ 53) ^ 3
             * (real_of_int 1 / (real_of_int 320000 / 1000000000))
        < real_of_int 3124 + 1"
    by (simp_all only: currentPPS_examples)
  have "0 < PPS (config exampleImporter) \<and>
      PPS (config exampleImporter) < rateAt exampleImporter (clock exampleWorld (reads exampleWorld))"
    by (simp add: rateAt_def exampleImporter_def NewImporter_def exampleWorld_def
        exampleConfig_def currentPPS_examples)
  with th[of exampleImporter exampleWorld]
  have fourth: "batchWrite exampleImporter exampleWorld =
       batchWrite exampleImporter (exampleWorld\<lparr>reads := 1, ticks := 1\<rparr>)"
    by (simp add: exampleWorld_def)
  have "rateAt exampleImporter (clock (exampleWorld\<lparr>reads := 2, ticks := 2\<rparr>)
           (reads (exampleWorld\<lparr>reads := 2, ticks := 2\<rparr>))) \<le> PPS (config exampleImporter)"
    by (simp add: rateAt_def exampleImporter_def NewImporter_def exampleWorld_def
        exampleConfig_def currentPPS_examples)
  with th[of exampleImporter "exampleWorld\<lparr>reads := 2, ticks := 2\<rparr>"]
  have fifth: "batchWrite exampleImporter (exampleWorld\<lparr>reads := 2, ticks := 2\<rparr>) =
       Some (flushNow exampleImporter (exampleWorld\<lparr>reads := 2, ticks := 2\<rparr>))"
    by blast
  let ?i = "(NewImporter (exampleConfig\<lparr>PPS := 3124\<rparr>))\<lparr>batch := [''m v=1'']\<rparr>"
  let ?w = "exampleWorld\<lparr>clock := (\<lambda>n. 320000 + int n * 1000)\<rparr>"
  have "rateAt ?i (clock ?w (reads ?w)) \<le> PPS (config ?i)"
    by (simp add: rateAt_def NewImporter_def exampleWorld_def exampleConfig_def
        currentPPS_examples)
  with th[of ?i ?w]
  have sixth: "batchWrite ?i ?w = Some (flushNow ?i ?w)"
    by blast
  from first second third float bounds fourth fifth sixth show ?thesis by (intro conjI)
qed

text \<open>
  C5. The claim says that every flush resets the batch to empty. The flush itself leaves
  the batch as it is; the accumulator empties it after the flush it triggers, and the
  flush at the end of the stream is followed by no reset: after phase 2 on one data line,
  the line has been written and is still in the batch.
\<close>

theorem end_of_stream_flush_keeps_batch:
  "map_option (map_sum id (batch \<circ> fst))
     (processDML [''m v=1''] [] [] (NewImporter exampleConfig) exampleWorld)
     = Some (Inr [''m v=1''])
   \<and> map_option (map_sum id (length \<circ> writes \<circ> snd))
     (processDML [''m v=1''] [] [] (NewImporter exampleConfig) exampleWorld)
     = Some (Inr 1)"
  by (simp add: run_eval)

text \<open>
  C5, amended. The accumulator appends the line; when that brings the batch to capacity
  it flushes and then empties the batch, so that the next line starts a fresh batch, and
  otherwise it writes nothing. A flush by itself, as at the end of the stream, leaves the
  batch unchanged. From a batch below capacity, the batch is below capacity after every
  line of the scan and after phase 2; the capacity is 5000.
\<close>

theorem accumulator_flush_resets:
  "(\<forall>i' w'. batchAccumulator line start i w = Some (i', w') \<longrightarrow>
      batch i' = (if length (batch i) + 1 = batchSize then [] else batch i @ [line])
      \<and> writes w' =
          (if length (batch i) + 1 = batchSize
           then writes w @ [(Join (batch i @ [line]) [CHR 0x0A], database i, retentionPolicy i,
                             Precision (config i), WriteConsistency (config i))]
           else writes w))
   \<and> (\<forall>i' w'. batchWrite i w = Some (i', w') \<longrightarrow> batch i' = batch i)
   \<and> (length (batch i) < batchSize \<longrightarrow>
        (\<forall>i' w'. scanDML dbo rpo start lines i w = Some (Inr (i', w')) \<longrightarrow>
           length (batch i') < batchSize)
        \<and> (\<forall>i' w'. processDML lines dbo rpo i w = Some (Inr (i', w')) \<longrightarrow>
           length (batch i') < batchSize))
   \<and> batchSize = 5000"
proof -
  have a: "batch i' = (if length (batch i) + 1 = batchSize then [] else batch i @ [line])
      \<and> writes w' =
          (if length (batch i) + 1 = batchSize
           then writes w @ [(Join (batch i @ [line]) [CHR 0x0A], database i, retentionPolicy i,
                             Precision (config i), WriteConsistency (config i))]
           else writes w)"
    if "batchAccumulator line start i w = Some (i', w')" for i' w'
    using batchAccumulator_Some[OF that] by simp
  have b: "batch i' = batch i" if "batchWrite i w = Some (i', w')" for i w i' w'
  proof -
    from that obtain k where "i' = fst (flushNow i (waited w k))" by (rule batchWrite_result)
    then show ?thesis by simp
  qed
  have c: "length (batch i') < batchSize"
    if "length (batch i) < batchSize" "scanDML dbo rpo start lines i w = Some (Inr (i', w'))"
    for i' w'
    using scanDML_Some[OF that(2)] that(1) by simp
  have d: "length (batch i') < batchSize"
    if "length (batch i) < batchSize" "processDML lines dbo rpo i w = Some (Inr (i', w'))"
    for i' w'
  proof -
    from that(2) obtain i4 w4 where
      scan: "scanDML dbo rpo (clock w (reads w)) lines (overrides dbo rpo i) (started dbo i w)
         = Some (Inr (i4, w4))"
      and bw: "batchWrite i4 w4 = Some (i', w')"
      by (rule processDML_Some)
    from scanDML_Some[OF scan] that(1) have "length (batch i4) < batchSize" by simp
    with b[OF bw] show ?thesis by simp
  qed
  have e: "batchSize = 5000" by (simp add: batchSize_def)
  from a have "\<forall>i' w'. batchAccumulator line start i w = Some (i', w') \<longrightarrow>
      batch i' = (if length (batch i) + 1 = batchSize then [] else batch i @ [line])
      \<and> writes w' =
          (if length (batch i) + 1 = batchSize
           then writes w @ [(Join (batch i @ [line]) [CHR 0x0A], database i, retentionPolicy i,
                             Precision (config i), WriteConsistency (config i))]
           else writes w)"
    by blast
  moreover from b have "\<forall>i' w'. batchWrite i w = Some (i', w') \<longrightarrow> batch i' = batch i"
    by blast
  moreover from c d have "length (batch i) < batchSize \<longrightarrow>
        (\<forall>i' w'. scanDML dbo rpo start lines i w = Some (Inr (i', w')) \<longrightarrow>
           length (batch i') < batchSize)
        \<and> (\<forall>i' w'. processDML lines dbo rpo i w = Some (Inr (i', w')) \<longrightarrow>
           length (batch i') < batchSize)"
    by blast
  ultimately show ?thesis using e by (intro conjI)
qed

theorem accumulator_flush_resets_witness:
  "(\<exists>i' w'. batchAccumulator ''m v=2'' 0
               ((NewImporter exampleConfig)\<lparr>batch := replicate 4999 ''m v=1''\<rparr>) exampleWorld
             = Some (i', w')
      \<and> batch i' = [] \<and> length (writes w') = 1)
   \<and> (\<exists>i' w'. batchAccumulator ''m v=2'' 0 (NewImporter exampleConfig) exampleWorld
             = Some (i', w')
      \<and> batch i' = [''m v=2''] \<and> writes w' = [])
   \<and> (\<exists>i' w'. processDML [''m v=1''] [] [] (NewImporter exampleConfig) exampleWorld
             = Some (Inr (i', w'))
      \<and> length (batch i') < 5000)"
proof -
  let ?full = "(NewImporter exampleConfig)\<lparr>batch := replicate 4999 ''m v=1''\<rparr>"
  note th = accumulator_flush_resets
  have pre: "0 \<le> PPS (config ?full)" "0 \<le> PPS (config (NewImporter exampleConfig))"
    "clockAdvances exampleWorld"
    by (simp_all add: NewImporter_def exampleConfig_def clockAdvances_exampleWorld)
  from batchAccumulator_total[OF pre(1,3), of "''m v=2''" 0]
  obtain i1 w1 where r1: "batchAccumulator ''m v=2'' 0 ?full exampleWorld = Some (i1, w1)"
    by blast
  with th[where line = "''m v=2''" and start = 0 and i = ?full and w = exampleWorld]
  have first: "batch i1 = [] \<and> length (writes w1) = 1"
    by (simp add: batchSize_def exampleWorld_def)
  from batchAccumulator_total[OF pre(2,3), of "''m v=2''" 0]
  obtain i2 w2 where
    r2: "batchAccumulator ''m v=2'' 0 (NewImporter exampleConfig) exampleWorld = Some (i2, w2)"
    by blast
  with th[where line = "''m v=2''" and start = 0 and i = "NewImporter exampleConfig"
      and w = exampleWorld]
  have second: "batch i2 = [''m v=2''] \<and> writes w2 = []"
    by (simp add: batchSize_def exampleWorld_def NewImporter_def)
  from processDML_total[OF pre(2,3), of "[''m v=1'']" "[]" "[]"]
  obtain i3 w3 where
    r3: "processDML [''m v=1''] [] [] (NewImporter exampleConfig) exampleWorld
           = Some (Inr (i3, w3))"
    by blast
  have "length (batch (NewImporter exampleConfig)) < batchSize"
    by (simp add: NewImporter_def batchSize_def)
  with th[where i = "NewImporter exampleConfig" and w = exampleWorld and dbo = "[]"
      and rpo = "[]" and lines = "[''m v=1'']"] r3
  have third: "length (batch i3) < 5000"
    by (simp add: batchSize_def)
  from r1 first r2 second r3 third show ?thesis by blast
qed

text \<open>
  C7. With a database override, whenever phase 2 returns: the schema command is
  \<open>CREATE DATABASE\<close> followed by the override, it is the one query sent, the target
  database is the override, and every write of the run, of which there is at least one,
  names the override as its database, whatever context directives the stream holds. The
  run returns when the limit is not negative and the clock advances.
\<close>

theorem database_override_wins:
  assumes "dbo \<noteq> []"
  shows "(\<forall>i' w'. processDML lines dbo rpo i w = Some (Inr (i', w')) \<longrightarrow>
      createDatabaseQuery i' = ''CREATE DATABASE '' @ dbo
      \<and> database i' = dbo
      \<and> queries w' = queries w @ [(''CREATE DATABASE '' @ dbo, dbo)]
      \<and> (\<exists>new. writes w' = writes w @ new \<and> new \<noteq> [] \<and> (\<forall>c\<in>set new. fst (snd c) = dbo)))
   \<and> (0 \<le> PPS (config i) \<and> clockAdvances w \<longrightarrow>
        (\<exists>i' w'. processDML lines dbo rpo i w = Some (Inr (i', w'))))"
proof -
  have "createDatabaseQuery i' = ''CREATE DATABASE '' @ dbo
      \<and> database i' = dbo
      \<and> queries w' = queries w @ [(''CREATE DATABASE '' @ dbo, dbo)]
      \<and> (\<exists>new. writes w' = writes w @ new \<and> new \<noteq> [] \<and> (\<forall>c\<in>set new. fst (snd c) = dbo))"
    if run: "processDML lines dbo rpo i w = Some (Inr (i', w'))" for i' w'
  proof -
    from run obtain i4 w4 where
      scan: "scanDML dbo rpo (clock w (reads w)) lines (overrides dbo rpo i) (started dbo i w)
         = Some (Inr (i4, w4))"
      and bw: "batchWrite i4 w4 = Some (i', w')"
      by (rule processDML_Some)
    from bw obtain k
      where r: "i' = fst (flushNow i4 (waited w4 k))" "w' = snd (flushNow i4 (waited w4 k))"
      by (rule batchWrite_result)
    from scanDML_Some[OF scan] assms
    have i4: "createDatabaseQuery i4 = ''CREATE DATABASE '' @ dbo" "database i4 = dbo"
      "queries w4 = queries w @ [(''CREATE DATABASE '' @ dbo, dbo)]"
      by simp_all
    from scanDML_writes[OF scan assms] assms
    obtain mid where mid: "writes w4 = writes w @ mid" "\<forall>c\<in>set mid. fst (snd c) = dbo"
      by auto
    let ?last = "(Join (batch i4) [CHR 0x0A], database i4, retentionPolicy i4,
                  Precision (config i4), WriteConsistency (config i4))"
    from r mid i4 have "writes w' = writes w @ (mid @ [?last])" "mid @ [?last] \<noteq> []"
      "\<forall>c\<in>set (mid @ [?last]). fst (snd c) = dbo"
      by simp_all
    then have "\<exists>new. writes w' = writes w @ new \<and> new \<noteq> [] \<and> (\<forall>c\<in>set new. fst (snd c) = dbo)"
      by blast
    with r i4 show ?thesis by simp
  qed
  moreover have "\<exists>i' w'. processDML lines dbo rpo i w = Some (Inr (i', w'))"
    if "0 \<le> PPS (config i) \<and> clockAdvances w"
    using that by (simp add: processDML_total)
  ultimately show ?thesis by blast
qed

theorem database_override_wins_witness:
  "map_option (map_sum id (\<lambda>r. (createDatabaseQuery (fst r), database (fst r),
        queries (snd r), map (fst \<circ> snd) (writes (snd r)))))
     (processDML [''# CONTEXT-DATABASE: foo'', ''m,t=1 v=1 0'', ''# CONTEXT-DATABASE: baz'', ''m v=2'']
        ''bar'' [] ((NewImporter exampleConfig)\<lparr>createDatabaseQuery := ''CREATE DATABASE foo''\<rparr>)
        exampleWorld)
   = Some (Inr (''CREATE DATABASE bar'', ''bar'', [(''CREATE DATABASE bar'', ''bar'')], [''bar'']))"
proof -
  let ?i = "(NewImporter exampleConfig)\<lparr>createDatabaseQuery := ''CREATE DATABASE foo''\<rparr>"
  let ?lines = "[''# CONTEXT-DATABASE: foo'', ''m,t=1 v=1 0'', ''# CONTEXT-DATABASE: baz'', ''m v=2'']"
  have "''bar'' \<noteq> []" by simp
  note th = database_override_wins[OF this, of ?lines "[]" ?i exampleWorld]
  have "0 \<le> PPS (config ?i) \<and> clockAdvances exampleWorld"
    by (simp add: NewImporter_def exampleConfig_def clockAdvances_exampleWorld)
  with th obtain i' w' where run: "processDML ?lines ''bar'' [] ?i exampleWorld = Some (Inr (i', w'))"
    by blast
  with th have "createDatabaseQuery i' = ''CREATE DATABASE bar''" "database i' = ''bar''"
    "queries w' = [(''CREATE DATABASE bar'', ''bar'')]"
    by (simp_all add: exampleWorld_def)
  moreover have "map_option (map_sum id (\<lambda>r. map (fst \<circ> snd) (writes (snd r))))
      (processDML ?lines ''bar'' [] ?i exampleWorld) = Some (Inr [''bar''])"
    by (simp add: run_eval)
  with run have "map (fst \<circ> snd) (writes w') = [''bar'']" by simp
  ultimately show ?thesis using run by simp
qed

text \<open>
  C4. When the client connects, the path is set, the file opens (and, if compressed,
  unpacks) and the scanner ends without error: whenever \<open>Import\<close> returns, it returns an
  error exactly when \<open>failedInserts\<close> is positive; the message is
  \<open>1 point was not inserted\<close> for one failed insert and the count followed by
  \<open>points were not inserted\<close> for more; with no failed insert it returns no error.
  \<open>Import\<close> does return when the limit is not negative and the clock advances.
\<close>

theorem import_outcome:
  assumes "newClientErr env = None" and "\<not> pingFails env" and "Path (config i) \<noteq> []"
    and "openFile env (Path (config i)) = Inr f"
    and "Compressed (config i) \<longrightarrow> gzipErr f = None"
    and "scanErr f = None"
  shows "(\<forall>err i' w'. Import env i w = Some (Inr (err, i', w')) \<longrightarrow>
      (err \<noteq> None \<longleftrightarrow> 0 < failedInserts i')
      \<and> (failedInserts i' = 1 \<longrightarrow> err = Some ''1 point was not inserted'')
      \<and> (1 < failedInserts i' \<longrightarrow>
           err = Some (itoa (failedInserts i') @ '' points were not inserted''))
      \<and> (failedInserts i' \<le> 0 \<longrightarrow> err = None))
   \<and> (0 \<le> PPS (config i) \<and> clockAdvances w \<longrightarrow>
        (\<exists>err i' w'. Import env i w = Some (Inr (err, i', w'))))"
proof -
  let ?run = "processDML (fst (processDDL (fileLines f) i)) (DestinationDatabase (config i))
             (RetentionPolicy (config i))
             ((snd (processDDL (fileLines f) i))\<lparr>lastWrite := clock w (reads w)\<rparr>)
             (w\<lparr>reads := Suc (reads w)\<rparr>)"
  note eq = Import_eq[OF assms, of w]
  have a: "(err \<noteq> None \<longleftrightarrow> 0 < failedInserts i')
      \<and> (failedInserts i' = 1 \<longrightarrow> err = Some ''1 point was not inserted'')
      \<and> (1 < failedInserts i' \<longrightarrow>
           err = Some (itoa (failedInserts i') @ '' points were not inserted''))
      \<and> (failedInserts i' \<le> 0 \<longrightarrow> err = None)"
    if "Import env i w = Some (Inr (err, i', w'))" for err i' w'
  proof -
    from that eq have
      "err = (if 0 < failedInserts i' then Some (notInserted (failedInserts i')) else None)"
      by (auto split: option.splits sum.splits)
    then show ?thesis
      by (auto simp: notInserted_one notInserted_many)
  qed
  have b: "\<exists>err i' w'. Import env i w = Some (Inr (err, i', w'))"
    if "0 \<le> PPS (config i) \<and> clockAdvances w"
  proof -
    from that have "0 \<le> PPS (config ((snd (processDDL (fileLines f) i))\<lparr>lastWrite := clock w (reads w)\<rparr>))"
      "clockAdvances (w\<lparr>reads := Suc (reads w)\<rparr>)"
      by (simp_all add: clockAdvances_def)
    from processDML_total[OF this] obtain i3 w3 where "?run = Some (Inr (i3, w3))" by blast
    with eq show ?thesis by simp
  qed
  from a b show ?thesis by blast
qed

theorem import_outcome_witness:
  "map_option (map_sum id fst)
     (Import exampleEnvironment (NewImporter (exampleConfig\<lparr>Path := ''points.txt''\<rparr>)) failingWorld)
     = Some (Inr (Some ''3 points were not inserted''))
   \<and> map_option (map_sum id fst)
     (Import exampleEnvironment (NewImporter exampleConfig) failingWorld)
     = Some (Inr (Some ''1 point was not inserted''))
   \<and> map_option (map_sum id fst)
     (Import exampleEnvironment (NewImporter exampleConfig) exampleWorld)
     = Some (Inr None)"
proof -
  let ?i = "NewImporter exampleConfig"
  let ?j = "NewImporter (exampleConfig\<lparr>Path := ''points.txt''\<rparr>)"
  let ?f = "\<lparr>gzipErr = None, fileLines = exampleLines, scanErr = None\<rparr>"
  let ?g = "\<lparr>gzipErr = None, fileLines = [''# DML'', ''a 1'', ''b 2'', ''c 3''], scanErr = None\<rparr>"
  have ok: "newClientErr exampleEnvironment = None" "\<not> pingFails exampleEnvironment"
    "Path (config ?i) \<noteq> []" "openFile exampleEnvironment (Path (config ?i)) = Inr ?f"
    "Compressed (config ?i) \<longrightarrow> gzipErr ?f = None" "scanErr ?f = None"
    by (simp_all add: exampleEnvironment_def NewImporter_def exampleConfig_def)
  have ok': "Path (config ?j) \<noteq> []" "openFile exampleEnvironment (Path (config ?j)) = Inr ?g"
    "Compressed (config ?j) \<longrightarrow> gzipErr ?g = None" "scanErr ?g = None"
    by (simp_all add: exampleEnvironment_def NewImporter_def exampleConfig_def)
  have pre: "0 \<le> PPS (config ?i) \<and> clockAdvances failingWorld"
    "0 \<le> PPS (config ?i) \<and> clockAdvances exampleWorld"
    "0 \<le> PPS (config ?j) \<and> clockAdvances failingWorld"
    by (simp_all add: NewImporter_def exampleConfig_def clockAdvances_failingWorld
        clockAdvances_exampleWorld)
  have failed: "map_option (map_sum id (failedInserts \<circ> fst \<circ> snd)) (Import exampleEnvironment ?j failingWorld)
      = Some (Inr 3)"
    "map_option (map_sum id (failedInserts \<circ> fst \<circ> snd)) (Import exampleEnvironment ?i failingWorld)
      = Some (Inr 1)"
    "map_option (map_sum id (failedInserts \<circ> fst \<circ> snd)) (Import exampleEnvironment ?i exampleWorld)
      = Some (Inr 0)"
    by (simp_all add: import_eval case_prod_beta)
  note th1 = import_outcome[OF ok(1,2) ok', of failingWorld]
  note th2 = import_outcome[OF ok, of failingWorld]
  note th3 = import_outcome[OF ok, of exampleWorld]
  from th1 pre(3) obtain e1 i1 w1 where
    r1: "Import exampleEnvironment ?j failingWorld = Some (Inr (e1, i1, w1))" by blast
  with failed(1) have "failedInserts i1 = 3" by simp
  with th1 r1 have "e1 = Some (itoa 3 @ '' points were not inserted'')" by simp
  then have e1: "e1 = Some ''3 points were not inserted''"
    by (simp add: itoa_def digits.simps)
  from th2 pre(1) obtain e2 i2 w2 where
    r2: "Import exampleEnvironment ?i failingWorld = Some (Inr (e2, i2, w2))" by blast
  with failed(2) have "failedInserts i2 = 1" by simp
  with th2 r2 have e2: "e2 = Some ''1 point was not inserted''" by simp
  from th3 pre(2) obtain e3 i3 w3 where
    r3: "Import exampleEnvironment ?i exampleWorld = Some (Inr (e3, i3, w3))" by blast
  with failed(3) have "failedInserts i3 = 0" by simp
  with th3 r3 have e3: "e3 = None" by simp
  from r1 e1 r2 e2 r3 e3 show ?thesis by simp
qed

end
